theory Spec2Isabelle
  imports Main "HOL-Library.Sublist" "HOL-Library.Product_Lexorder"
begin

section \<open>Shared data\<close>

text \<open>
  A Go \<^verbatim>\<open>error\<close> value. \<^verbatim>\<open>sql.ErrNoRows\<close> is a sentinel that the code compares by
  identity; every other error is known by its message only.
\<close>

datatype error = ErrNoRows | Err string

fun error_string :: "error \<Rightarrow> string" where
  "error_string ErrNoRows = ''sql: no rows in result set''"
| "error_string (Err s) = s"

text \<open>\<^verbatim>\<open>time.Time\<close> as an instant on a discrete clock; \<^verbatim>\<open>After\<close> is \<open>>\<close>.\<close>

type_synonym time = int

text \<open>
  Modelled from the spec: \<^verbatim>\<open>model.Amount\<close> is declared outside the files at hand; the
  spec calls it a fixed-point currency value with explicit precision.
\<close>

record Amount =
  amount_symbol :: string
  amount_number :: int

section \<open>The micro-deposit cursor (cursor.go)\<close>

text \<open>
  One row of the table \<^verbatim>\<open>micro_deposits\<close>, with the columns the query of \<^verbatim>\<open>Next\<close>
  reads or tests. \<open>row_scan_err\<close> is the error \<^verbatim>\<open>rows.Scan\<close> reports on the row, if any.
\<close>

record micro_deposit_row =
  depository_id :: string
  user_id :: string
  amount :: string
  file_id :: string
  created_at :: time
  deleted_at :: "time option"
  merged_filename :: "string option"
  row_scan_err :: "error option"

text \<open>
  The database behind \<^verbatim>\<open>Cursor.Repo\<close> (a pointer, so the state is passed to each call):
  the table, and the failures the driver may report. \<open>rows_err = Some (k, e)\<close> means that
  the iteration stops after \<open>k\<close> rows and \<^verbatim>\<open>rows.Err()\<close> is \<open>e\<close>.
\<close>

record SQLRepo =
  micro_deposits :: "micro_deposit_row list"
  prepare_err :: "error option"
  query_err :: "error option"
  rows_err :: "(nat \<times> error) option"

record Cursor =
  BatchSize :: int
  newerThan :: time

record UploadableCredit =
  DepositoryID :: string
  UserID :: string
  CreditAmount :: Amount
  FileID :: string
  CreatedAt :: time

text \<open>The \<^verbatim>\<open>where\<close> clause of the query: not deleted, not merged, created after the watermark.\<close>

definition pending_after :: "time \<Rightarrow> micro_deposit_row \<Rightarrow> bool" where
  "pending_after t r \<longleftrightarrow> deleted_at r = None \<and> merged_filename r = None \<and> t < created_at r"

text \<open>
  \<^verbatim>\<open>limit ?\<close>: the first \<open>n\<close> rows. A negative operand is read as no limit, as SQLite
  does; the theorems below are about \<open>0 \<le> BatchSize\<close>.
\<close>

definition sql_limit :: "int \<Rightarrow> 'a list \<Rightarrow> 'a list" where
  "sql_limit n xs = (if n < 0 then xs else take (nat n) xs)"

text \<open>
  The query: \<^verbatim>\<open>select ... where deleted_at is null and merged_filename is null and
  created_at > ? order by created_at asc limit ?\<close>. Rows of equal \<open>created_at\<close> keep their
  table order (SQL leaves their order open).
\<close>

definition select_micro_deposits :: "micro_deposit_row list \<Rightarrow> time \<Rightarrow> int \<Rightarrow> micro_deposit_row list" where
  "select_micro_deposits tbl t n = sql_limit n (sort_key created_at (filter (pending_after t) tbl))"

text \<open>The rows the iteration hands over before \<^verbatim>\<open>rows.Next()\<close> returns false.\<close>

definition delivered :: "SQLRepo \<Rightarrow> Cursor \<Rightarrow> micro_deposit_row list" where
  "delivered db cur =
     (let rows = select_micro_deposits (micro_deposits db) (newerThan cur) (BatchSize cur)
      in case rows_err db of None \<Rightarrow> rows | Some (k, e) \<Rightarrow> take k rows)"

definition as_credit :: "micro_deposit_row \<Rightarrow> Amount \<Rightarrow> UploadableCredit" where
  "as_credit r a =
     \<lparr>DepositoryID = depository_id r, UserID = user_id r, CreditAmount = a,
      FileID = file_id r, CreatedAt = created_at r\<rparr>"

text \<open>
  The loop \<^verbatim>\<open>for rows.Next() { ... }\<close> over the delivered rows, with the running maximum
  and the slice built so far. \<open>FromString\<close> is \<^verbatim>\<open>model.Amount.FromString\<close>, which is
  declared outside the files at hand and therefore a parameter.
\<close>

fun scan_rows ::
  "(string \<Rightarrow> error + Amount) \<Rightarrow> micro_deposit_row list \<Rightarrow> time \<Rightarrow> UploadableCredit list
    \<Rightarrow> error + (time \<times> UploadableCredit list)" where
  "scan_rows FromString [] mx microDeposits = Inr (mx, microDeposits)"
| "scan_rows FromString (r # rs) mx microDeposits =
     (case row_scan_err r of
        Some e \<Rightarrow> Inl (Err (''transferCursor.Next: scan: '' @ error_string e))
      | None \<Rightarrow>
          (case FromString (amount r) of
             Inl e \<Rightarrow>
               Inl (Err (''transferCursor.Next: '' @ amount r @ '' Amount from string: ''
                         @ error_string e))
           | Inr a \<Rightarrow>
               scan_rows FromString rs
                 (if mx < created_at r then created_at r else mx)
                 (microDeposits @ [as_credit r a])))"

text \<open>
  \<^verbatim>\<open>Next\<close> returns the slice and the error (a nil slice is \<open>[]\<close>), and the cursor as
  the call leaves it.
\<close>

definition Next ::
  "(string \<Rightarrow> error + Amount) \<Rightarrow> SQLRepo \<Rightarrow> Cursor
    \<Rightarrow> (UploadableCredit list \<times> error option) \<times> Cursor" where
  "Next FromString db cur =
     (case prepare_err db of
        Some e \<Rightarrow> (([], Some (Err (''microDepositCursor.Next: prepare: '' @ error_string e))), cur)
      | None \<Rightarrow>
     (case query_err db of
        Some e \<Rightarrow> (([], Some (Err (''microDepositCursor.Next: query: '' @ error_string e))), cur)
      | None \<Rightarrow>
     (case scan_rows FromString (delivered db cur) (newerThan cur) [] of
        Inl e \<Rightarrow> (([], Some e), cur)
      | Inr (mx, microDeposits) \<Rightarrow>
          ((microDeposits, map_option snd (rows_err db)), cur\<lparr>newerThan := mx\<rparr>))))"

text \<open>\<^verbatim>\<open>GetCursor\<close>: the watermark starts at the first instant of the current day.\<close>

definition GetCursor :: "time \<Rightarrow> int \<Rightarrow> Cursor" where
  "GetCursor day_start batchSize = \<lparr>BatchSize = batchSize, newerThan = day_start\<rparr>"


text \<open>
  A caller that drains the cursor: \<open>n\<close> sequential calls of \<^verbatim>\<open>Next\<close> on one cursor, and all
  the credits they return, in order.
\<close>

fun drain :: "nat \<Rightarrow> (string \<Rightarrow> error + Amount) \<Rightarrow> SQLRepo \<Rightarrow> Cursor \<Rightarrow> UploadableCredit list" where
  "drain 0 FromString db cur = []"
| "drain (Suc n) FromString db cur =
     (case Next FromString db cur of ((batch, err), cur') \<Rightarrow> batch @ drain n FromString db cur')"

section \<open>Transfers (transfers.go)\<close>

subsection \<open>Requests and transfers\<close>

text \<open>
  The identifiers, the transfer type and the statuses are Go string types. The detail
  sub-objects are opaque here.
\<close>

type_synonym CCDDetail = string
type_synonym IATDetail = string
type_synonym TELDetail = string
type_synonym WEBDetail = string

record transferRequest =
  req_Type :: string
  req_Amount :: Amount
  req_Originator :: string
  req_OriginatorDepository :: string
  req_Receiver :: string
  req_ReceiverDepository :: string
  req_Description :: string
  req_StandardEntryClassCode :: string
  req_SameDay :: bool
  req_CCDDetail :: "CCDDetail option"
  req_IATDetail :: "IATDetail option"
  req_TELDetail :: "TELDetail option"
  req_WEBDetail :: "WEBDetail option"
  req_fileID :: string
  req_transactionID :: string
  req_remoteAddr :: string
  req_userID :: string

text \<open>\<^verbatim>\<open>strings.Join\<close>.\<close>

fun strings_Join :: "string list \<Rightarrow> string \<Rightarrow> string" where
  "strings_Join [] sep = []"
| "strings_Join [x] sep = x"
| "strings_Join (x # y # ys) sep = x @ sep @ strings_Join (y # ys) sep"

text \<open>The closure \<^verbatim>\<open>check\<close> of \<^verbatim>\<open>missingFields\<close>, with the slice it appends to.\<close>

definition check :: "string \<Rightarrow> string \<Rightarrow> string list \<Rightarrow> string list" where
  "check name s missing = (if s = [] then missing @ [name] else missing)"

text \<open>The slice \<^verbatim>\<open>missing\<close> after the six calls of \<^verbatim>\<open>check\<close>, made in the order of the source.\<close>

definition missing_names :: "transferRequest \<Rightarrow> string list" where
  "missing_names r =
     (check ''standardEntryClassCode'' (req_StandardEntryClassCode r)
     (check ''receiverDepository'' (req_ReceiverDepository r)
     (check ''receiver'' (req_Receiver r)
     (check ''originatorDepository'' (req_OriginatorDepository r)
     (check ''originator'' (req_Originator r)
     (check ''transferType'' (req_Type r) []))))))"

definition missingFields :: "transferRequest \<Rightarrow> error option" where
  "missingFields r =
     (let missing = missing_names r
      in if length missing > 0
         then Some (Err (''missing '' @ strings_Join missing '', '' @ '' JSON field(s)''))
         else None)"

text \<open>
  Modelled from the spec: \<^verbatim>\<open>model.TransferPending\<close> is declared outside the files at hand;
  the spec names the state \<^verbatim>\<open>Pending\<close>, the initial one of a transfer.
\<close>

definition TransferPending :: string where
  "TransferPending = ''pending''"

text \<open>
  Modelled from the spec: \<^verbatim>\<open>model.DepositoryVerified\<close> is declared outside the files at
  hand; the spec names the status \<^verbatim>\<open>Verified\<close> of a depository.
\<close>

definition DepositoryVerified :: string where
  "DepositoryVerified = ''verified''"

record Transfer =
  xfer_ID :: string
  xfer_Type :: string
  xfer_Amount :: Amount
  xfer_Originator :: string
  xfer_OriginatorDepository :: string
  xfer_Receiver :: string
  xfer_ReceiverDepository :: string
  xfer_Description :: string
  xfer_StandardEntryClassCode :: string
  xfer_Status :: string
  xfer_SameDay :: bool
  xfer_Created :: time
  xfer_UserID :: string
  xfer_CCDDetail :: "CCDDetail option"
  xfer_IATDetail :: "IATDetail option"
  xfer_TELDetail :: "TELDetail option"
  xfer_WEBDetail :: "WEBDetail option"

text \<open>
  \<^verbatim>\<open>asTransfer\<close>; \<open>now\<close> is \<^verbatim>\<open>base.Now()\<close>. The \<^verbatim>\<open>switch\<close> copies the detail of the
  request's class code (\<^verbatim>\<open>ach.CCD\<close>, \<^verbatim>\<open>ach.IAT\<close>, \<^verbatim>\<open>ach.TEL\<close>, \<^verbatim>\<open>ach.WEB\<close>).
\<close>

definition asTransfer :: "transferRequest \<Rightarrow> string \<Rightarrow> time \<Rightarrow> Transfer" where
  "asTransfer r transferID now =
     (let xfer =
        \<lparr>xfer_ID = transferID, xfer_Type = req_Type r, xfer_Amount = req_Amount r,
         xfer_Originator = req_Originator r,
         xfer_OriginatorDepository = req_OriginatorDepository r,
         xfer_Receiver = req_Receiver r,
         xfer_ReceiverDepository = req_ReceiverDepository r,
         xfer_Description = req_Description r,
         xfer_StandardEntryClassCode = req_StandardEntryClassCode r,
         xfer_Status = TransferPending, xfer_SameDay = req_SameDay r, xfer_Created = now,
         xfer_UserID = req_userID r,
         xfer_CCDDetail = None, xfer_IATDetail = None, xfer_TELDetail = None,
         xfer_WEBDetail = None\<rparr>
      in if xfer_StandardEntryClassCode xfer = ''CCD'' then xfer\<lparr>xfer_CCDDetail := req_CCDDetail r\<rparr>
         else if xfer_StandardEntryClassCode xfer = ''IAT'' then xfer\<lparr>xfer_IATDetail := req_IATDetail r\<rparr>
         else if xfer_StandardEntryClassCode xfer = ''TEL'' then xfer\<lparr>xfer_TELDetail := req_TELDetail r\<rparr>
         else if xfer_StandardEntryClassCode xfer = ''WEB'' then xfer\<lparr>xfer_WEBDetail := req_WEBDetail r\<rparr>
         else xfer)"

subsection \<open>The HTTP request and the response\<close>

text \<open>
  What \<^verbatim>\<open>ioutil.ReadAll\<close> and \<^verbatim>\<open>json.Unmarshal\<close> make of the body: a read error, one
  JSON object, a JSON array (an element \<^verbatim>\<open>null\<close> is a nil pointer, \<open>None\<close>), or text that
  is neither (with the error of the second \<^verbatim>\<open>Unmarshal\<close>).
\<close>

datatype body =
    BodyReadError error
  | JSONObject transferRequest
  | JSONArray "transferRequest option list"
  | JSONInvalid error

record http_request =
  http_body :: body
  idempotency_header :: string
  remote_addr :: string
  mux_vars :: "(string \<times> string) list"

text \<open>The \<^verbatim>\<open>*route.Responder\<close> that \<^verbatim>\<open>route.NewResponder\<close> returns, when it is not nil.\<close>

record Responder =
  XUserID :: string
  XRequestID :: string

text \<open>
  What a handler leaves on the \<^verbatim>\<open>http.ResponseWriter\<close>: nothing of its own when the
  responder is nil, a problem, status OK with one object, with an array or with no body; or
  the handler panics.
\<close>

datatype response =
    NilResponder
  | Problem error
  | OKObject Transfer
  | OKArray "Transfer list"
  | StatusOK
  | Panic

definition getTransferID :: "http_request \<Rightarrow> string" where
  "getTransferID r = (case map_of (mux_vars r) ''transferId'' of Some v \<Rightarrow> v | None \<Rightarrow> [])"

definition readTransferRequests :: "body \<Rightarrow> error + transferRequest option list" where
  "readTransferRequests b =
     (case b of
        BodyReadError err \<Rightarrow> Inl err
      | JSONInvalid err \<Rightarrow> Inl err
      | JSONArray requests \<Rightarrow>
          if length requests = 0 then Inl (Err ''no Transfer request objects found'')
          else Inr requests
      | JSONObject req \<Rightarrow>
          (case missingFields req of
             Some err \<Rightarrow> Inl err
           | None \<Rightarrow> Inr [Some req]))"

text \<open>\<^verbatim>\<open>transfers[0]\<close> of an empty slice panics.\<close>

definition writeResponse :: "nat \<Rightarrow> Transfer list \<Rightarrow> response" where
  "writeResponse reqCount transfers =
     (if reqCount = 1
      then (case transfers of [] \<Rightarrow> Panic | t # ts \<Rightarrow> OKObject t)
      else OKArray transfers)"


subsection \<open>The collaborators\<close>

text \<open>
  Modelled from the spec: \<^verbatim>\<open>model.Receiver\<close> is declared outside the files at hand. The
  handlers read none of its fields.
\<close>

record Receiver =
  receiver_ID :: string

text \<open>
  Modelled from the spec: \<^verbatim>\<open>model.Originator\<close> is declared outside the files at hand. The
  handlers read none of its fields.
\<close>

record Originator =
  originator_ID :: string

text \<open>
  Modelled from the spec: \<^verbatim>\<open>model.Depository\<close> is declared outside the files at hand. The
  handlers read its identifier and its status.
\<close>

record Depository =
  dep_ID :: string
  dep_Status :: string

text \<open>An \<^verbatim>\<open>*ach.File\<close>, opaque.\<close>

type_synonym File = string

text \<open>
  A call that a handler makes to a collaborator, with its arguments (a Go pointer is an
  \<open>option\<close>). A trace lists the calls in the order they were made, each with the index of the
  loop iteration that made it (the index is \<open>0\<close> in \<^verbatim>\<open>deleteUserTransfer\<close>, and the number
  of requests for the call after the loop of \<^verbatim>\<open>createUserTransfers\<close>).
\<close>

datatype call =
    CallGetUserReceiver string string
  | CallGetUserDepository string string
  | CallGetUserOriginator string string
  | CallAllowTransfer string
  | CallPostAccountTransaction string "Depository option" "Depository option" Amount string string
  | CallVerifyCustomerStatuses "Originator option" "Receiver option" string string
  | CallVerifyDisclaimersAreAccepted "Originator option" "Receiver option" string string
  | CallConstructFile string string Transfer "Receiver option" "Depository option"
      "Originator option" "Depository option"
  | CallCreateFile string File
  | CallCheckFile string string
  | CallWriteTransferEvent string transferRequest
  | CallRepoCreateUserTransfers string "transferRequest list"
  | CallRepoGetUserTransfer string string
  | CallRepoDeleteUserTransfer string string
  | CallGetFileIDForTransfer string string
  | CallDeleteFile string

type_synonym trace = "(nat \<times> call) list"

text \<open>
  Modelled from the spec: the collaborators of \<^verbatim>\<open>TransferRouter\<close> are interfaces and
  packages outside the files at hand, so what each call returns is a parameter. A call
  that reads or writes shared state gets the trace so far: its result may depend on
  everything done before it. The spec gives the contracts: a repository lookup returns
  entity-or-not-found, the ledger client transactionID-or-error, the clearing-network
  client fileID-or-error and error-or-nil. \<open>accountsClient\<close> and \<open>customersClient\<close> say
  whether the optional client is non-nil. \<open>base_ID_key\<close> and \<open>base_ID_transfer i\<close> are
  what \<^verbatim>\<open>base.ID()\<close> returns for the idempotency key and in iteration \<open>i\<close>; \<open>base_Now\<close> is
  \<^verbatim>\<open>base.Now()\<close>.
\<close>

record env =
  GetUserReceiver :: "trace \<Rightarrow> string \<Rightarrow> string \<Rightarrow> error + Receiver"
  Receiver_Validate :: "Receiver \<Rightarrow> error option"
  GetUserDepository :: "trace \<Rightarrow> string \<Rightarrow> string \<Rightarrow> error + Depository"
  Depository_Validate :: "Depository \<Rightarrow> error option"
  GetUserOriginator :: "trace \<Rightarrow> string \<Rightarrow> string \<Rightarrow> error + Originator"
  Originator_Validate :: "Originator \<Rightarrow> error option"
  allowTransfer :: "trace \<Rightarrow> string \<Rightarrow> error option"
  accountsClient :: bool
  postAccountTransaction ::
    "trace \<Rightarrow> string \<Rightarrow> Depository option \<Rightarrow> Depository option \<Rightarrow> Amount \<Rightarrow> string \<Rightarrow> string
      \<Rightarrow> error + string"
  customersClient :: bool
  verifyCustomerStatuses ::
    "trace \<Rightarrow> Originator option \<Rightarrow> Receiver option \<Rightarrow> string \<Rightarrow> string \<Rightarrow> error option"
  verifyDisclaimersAreAccepted ::
    "trace \<Rightarrow> Originator option \<Rightarrow> Receiver option \<Rightarrow> string \<Rightarrow> string \<Rightarrow> error option"
  ConstructFile ::
    "string \<Rightarrow> string \<Rightarrow> Transfer \<Rightarrow> Receiver option \<Rightarrow> Depository option
      \<Rightarrow> Originator option \<Rightarrow> Depository option \<Rightarrow> error + File"
  CreateFile :: "trace \<Rightarrow> string \<Rightarrow> File \<Rightarrow> error + string"
  CheckFile :: "trace \<Rightarrow> string \<Rightarrow> string \<Rightarrow> error option"
  writeTransferEvent :: "trace \<Rightarrow> string \<Rightarrow> transferRequest \<Rightarrow> error option"
  repo_createUserTransfers :: "trace \<Rightarrow> string \<Rightarrow> transferRequest list \<Rightarrow> error + Transfer list"
  repo_getUserTransfer :: "trace \<Rightarrow> string \<Rightarrow> string \<Rightarrow> error + Transfer"
  repo_deleteUserTransfer :: "trace \<Rightarrow> string \<Rightarrow> string \<Rightarrow> error option"
  GetFileIDForTransfer :: "trace \<Rightarrow> string \<Rightarrow> string \<Rightarrow> string \<times> error option"
  DeleteFile :: "trace \<Rightarrow> string \<Rightarrow> error option"
  base_ID_key :: string
  base_ID_transfer :: "nat \<Rightarrow> string"
  base_Now :: time

subsection \<open>getTransferObjects\<close>

text \<open>
  The five return values as Go has them: four pointers and an error, each nil or not.
  The second component is the trace after the lookups made.
\<close>

type_synonym transfer_objects =
  "Receiver option \<times> Depository option \<times> Originator option \<times> Depository option \<times> error option"

definition getTransferObjects ::
  "env \<Rightarrow> nat \<Rightarrow> transferRequest \<Rightarrow> string \<Rightarrow> trace \<Rightarrow> transfer_objects \<times> trace" where
  "getTransferObjects env i req userID tr0 =
     (let tr1 = tr0 @ [(i, CallGetUserReceiver (req_Receiver req) userID)] in
      case GetUserReceiver env tr0 (req_Receiver req) userID of
        Inl err \<Rightarrow> ((None, None, None, None, Some (Err ''receiver not found'')), tr1)
      | Inr receiver \<Rightarrow>
     (case Receiver_Validate env receiver of
        Some err \<Rightarrow>
          ((None, None, None, None, Some (Err (''receiver: '' @ error_string err))), tr1)
      | None \<Rightarrow>
     (let tr2 = tr1 @ [(i, CallGetUserDepository (req_ReceiverDepository req) userID)] in
      case GetUserDepository env tr1 (req_ReceiverDepository req) userID of
        Inl err \<Rightarrow> ((None, None, None, None, Some (Err ''receiver depository not found'')), tr2)
      | Inr receiverDep \<Rightarrow>
     (if dep_Status receiverDep \<noteq> DepositoryVerified
      then ((None, None, None, None,
             Some (Err (''receiver depository '' @ dep_ID receiverDep @ '' is in status ''
                        @ dep_Status receiverDep))), tr2)
      else
     (case Depository_Validate env receiverDep of
        Some err \<Rightarrow>
          ((None, None, None, None, Some (Err (''receiver depository: '' @ error_string err))), tr2)
      | None \<Rightarrow>
     (let tr3 = tr2 @ [(i, CallGetUserOriginator (req_Originator req) userID)] in
      case GetUserOriginator env tr2 (req_Originator req) userID of
        Inl err \<Rightarrow> ((None, None, None, None, Some (Err ''originator not found'')), tr3)
      | Inr orig \<Rightarrow>
     (case Originator_Validate env orig of
        Some err \<Rightarrow>
          ((None, None, None, None, Some (Err (''originator: '' @ error_string err))), tr3)
      | None \<Rightarrow>
     (let tr4 = tr3 @ [(i, CallGetUserDepository (req_OriginatorDepository req) userID)] in
      case GetUserDepository env tr3 (req_OriginatorDepository req) userID of
        Inl err \<Rightarrow> ((None, None, None, None, Some (Err ''originator Depository not found'')), tr4)
      | Inr origDep \<Rightarrow>
     (if dep_Status origDep \<noteq> DepositoryVerified
      then ((None, None, None, None,
             Some (Err (''originator Depository '' @ dep_ID origDep @ '' is in status ''
                        @ dep_Status origDep))), tr4)
      else
     (case Depository_Validate env origDep of
        Some err \<Rightarrow>
          ((None, None, None, None, Some (Err (''originator depository: '' @ error_string err))), tr4)
      | None \<Rightarrow>
          ((Some receiver, Some receiverDep, Some orig, Some origDep, None), tr4)))))))))))"


subsection \<open>createUserTransfers\<close>

text \<open>
  One iteration of the loop \<^verbatim>\<open>for i := range requests\<close> on \<^verbatim>\<open>requests[i]\<close>: \<open>Inl\<close> is the
  response of an early \<^verbatim>\<open>return\<close>, \<open>Inr\<close> the request as the iteration leaves it. A nil
  \<^verbatim>\<open>requests[i]\<close> panics in \<^verbatim>\<open>req.missingFields()\<close>.
\<close>

definition processRequest ::
  "env \<Rightarrow> Responder \<Rightarrow> string \<Rightarrow> string \<Rightarrow> nat \<Rightarrow> transferRequest option \<Rightarrow> trace
    \<Rightarrow> (response + transferRequest) \<times> trace" where
  "processRequest env responder idempotencyKey remoteIP i request tr =
     (case request of
        None \<Rightarrow> (Inl Panic, tr)
      | Some req0 \<Rightarrow>
     (let transferID = base_ID_transfer env i in
      case missingFields req0 of
        Some err \<Rightarrow> (Inl (Problem err), tr)
      | None \<Rightarrow>
     (let req = req0\<lparr>req_remoteAddr := remoteIP, req_userID := XUserID responder\<rparr> in
      case getTransferObjects env i req (XUserID responder) tr of
        ((receiver, receiverDep, orig, origDep, Some err), tr1) \<Rightarrow>
          (Inl (Problem (Err (''missing data to create transfer: '' @ error_string err))), tr1)
      | ((receiver, receiverDep, orig, origDep, None), tr1) \<Rightarrow>
     (let tr2 = tr1 @ [(i, CallAllowTransfer (XUserID responder))] in
      case allowTransfer env tr1 (XUserID responder) of
        Some err \<Rightarrow> (Inl (Problem err), tr2)
      | None \<Rightarrow>
     (let tr3 =
        (if accountsClient env
         then tr2 @ [(i, CallPostAccountTransaction (XUserID responder) origDep receiverDep
                          (req_Amount req) (req_Type req) (XRequestID responder))]
         else tr2) in
      case (if accountsClient env
            then postAccountTransaction env tr2 (XUserID responder) origDep receiverDep
                   (req_Amount req) (req_Type req) (XRequestID responder)
            else Inr []) of
        Inl err \<Rightarrow> (Inl (Problem err), tr3)
      | Inr transactionID \<Rightarrow>
     (let tr4 =
        (if customersClient env
         then tr3 @ [(i, CallVerifyCustomerStatuses orig receiver (XRequestID responder)
                          (XUserID responder))]
         else tr3) in
      case (if customersClient env
            then verifyCustomerStatuses env tr3 orig receiver (XRequestID responder)
                   (XUserID responder)
            else None) of
        Some err \<Rightarrow> (Inl (Problem err), tr4)
      | None \<Rightarrow>
     (let tr5 =
        (if customersClient env
         then tr4 @ [(i, CallVerifyDisclaimersAreAccepted orig receiver (XRequestID responder)
                          (XUserID responder))]
         else tr4) in
      case (if customersClient env
            then verifyDisclaimersAreAccepted env tr4 orig receiver (XRequestID responder)
                   (XUserID responder)
            else None) of
        Some err \<Rightarrow> (Inl (Problem err), tr5)
      | None \<Rightarrow>
     (let transfer = asTransfer req transferID (base_Now env);
          tr6 = tr5 @ [(i, CallConstructFile transferID idempotencyKey transfer receiver
                            receiverDep orig origDep)] in
      case ConstructFile env transferID idempotencyKey transfer receiver receiverDep orig origDep of
        Inl err \<Rightarrow> (Inl (Problem err), tr6)
      | Inr file \<Rightarrow>
     (let tr7 = tr6 @ [(i, CallCreateFile idempotencyKey file)] in
      case CreateFile env tr6 idempotencyKey file of
        Inl err \<Rightarrow> (Inl (Problem err), tr7)
      | Inr fileID \<Rightarrow>
     (let tr8 = tr7 @ [(i, CallCheckFile fileID (XUserID responder))] in
      case CheckFile env tr7 fileID (XUserID responder) of
        Some err \<Rightarrow> (Inl (Problem err), tr8)
      | None \<Rightarrow>
     (let req' = req\<lparr>req_fileID := fileID, req_transactionID := transactionID\<rparr>;
          tr9 = tr8 @ [(i, CallWriteTransferEvent (XUserID responder) req')] in
      case writeTransferEvent env tr8 (XUserID responder) req' of
        Some err \<Rightarrow> (Inl (Problem err), tr9)
      | None \<Rightarrow> (Inr req', tr9))))))))))))"

text \<open>The loop, from iteration \<open>i\<close> on: it stops at the first early \<^verbatim>\<open>return\<close>.\<close>

fun processRequests ::
  "env \<Rightarrow> Responder \<Rightarrow> string \<Rightarrow> string \<Rightarrow> nat \<Rightarrow> transferRequest option list \<Rightarrow> trace
    \<Rightarrow> (response + transferRequest list) \<times> trace" where
  "processRequests env responder idempotencyKey remoteIP i [] tr = (Inr [], tr)"
| "processRequests env responder idempotencyKey remoteIP i (request # rest) tr =
     (case processRequest env responder idempotencyKey remoteIP i request tr of
        (Inl resp, tr') \<Rightarrow> (Inl resp, tr')
      | (Inr req', tr') \<Rightarrow>
          (case processRequests env responder idempotencyKey remoteIP (Suc i) rest tr' of
             (Inl resp, tr'') \<Rightarrow> (Inl resp, tr'')
           | (Inr reqs', tr'') \<Rightarrow> (Inr (req' # reqs'), tr'')))"

text \<open>
  The handler. \<open>responder\<close> is what \<^verbatim>\<open>route.NewResponder(c.logger, w, r)\<close> returned; the
  result is the response and the trace of the calls made.
\<close>

definition createUserTransfers ::
  "env \<Rightarrow> Responder option \<Rightarrow> http_request \<Rightarrow> response \<times> trace" where
  "createUserTransfers env responder r =
     (case responder of
        None \<Rightarrow> (NilResponder, [])
      | Some rsp \<Rightarrow>
     (case readTransferRequests (http_body r) of
        Inl err \<Rightarrow> (Problem err, [])
      | Inr requests \<Rightarrow>
     (let idempotencyKey =
            (if idempotency_header r = [] then base_ID_key env else idempotency_header r);
          remoteIP = remote_addr r in
      case processRequests env rsp idempotencyKey remoteIP 0 requests [] of
        (Inl resp, tr) \<Rightarrow> (resp, tr)
      | (Inr requests', tr) \<Rightarrow>
     (let tr' = tr @ [(length requests, CallRepoCreateUserTransfers (XUserID rsp) requests')] in
      case repo_createUserTransfers env tr (XUserID rsp) requests' of
        Inl err \<Rightarrow> (Problem err, tr')
      | Inr transfers \<Rightarrow> (writeResponse (length requests) transfers, tr')))))"

subsection \<open>deleteUserTransfer\<close>

definition deleteUserTransfer ::
  "env \<Rightarrow> Responder option \<Rightarrow> http_request \<Rightarrow> response \<times> trace" where
  "deleteUserTransfer env responder r =
     (case responder of
        None \<Rightarrow> (NilResponder, [])
      | Some rsp \<Rightarrow>
     (let transferID = getTransferID r;
          tr1 = [(0, CallRepoGetUserTransfer transferID (XUserID rsp))] in
      case repo_getUserTransfer env [] transferID (XUserID rsp) of
        Inl err \<Rightarrow> (Problem err, tr1)
      | Inr transfer \<Rightarrow>
     (if xfer_Status transfer \<noteq> TransferPending
      then (Problem (Err (''a '' @ xfer_Status transfer @ '' transfer can'' @ [CHR 0x27]
                          @ ''t be deleted'')), tr1)
      else
     (let tr2 = tr1 @ [(0, CallRepoDeleteUserTransfer transferID (XUserID rsp))] in
      case repo_deleteUserTransfer env tr1 transferID (XUserID rsp) of
        Some err \<Rightarrow> (Problem err, tr2)
      | None \<Rightarrow>
     (let tr3 = tr2 @ [(0, CallGetFileIDForTransfer transferID (XUserID rsp))] in
      case GetFileIDForTransfer env tr2 transferID (XUserID rsp) of
        (fileID, err) \<Rightarrow>
     (if err \<noteq> None \<and> err \<noteq> Some ErrNoRows
      then (Problem (the err), tr3)
      else if fileID \<noteq> []
      then
        (let tr4 = tr3 @ [(0, CallDeleteFile fileID)] in
         case DeleteFile env tr3 fileID of
           Some err \<Rightarrow> (Problem err, tr4)
         | None \<Rightarrow> (StatusOK, tr4))
      else (StatusOK, tr3)))))))"

subsection \<open>The idempotency recorder\<close>

text \<open>The state of the recorder: the keys recorded so far.\<close>

type_synonym Recorder = "string list"

text \<open>
  Modelled from the spec: \<^verbatim>\<open>IdempotentRecorder.SeenBefore\<close> is outside the files at hand
  (only the test \<^verbatim>\<open>TestRoute__Idempotency\<close> calls it). The spec: the first call for a key
  returns false and records the key, every later call with the key returns true.
\<close>

definition SeenBefore :: "string \<Rightarrow> Recorder \<Rightarrow> bool \<times> Recorder" where
  "SeenBefore key rec = (key \<in> set rec, if key \<in> set rec then rec else key # rec)"

text \<open>Sequential calls of \<^verbatim>\<open>SeenBefore\<close>, one for each key of a list, and what each returns.\<close>

fun SeenBefore_calls :: "string list \<Rightarrow> Recorder \<Rightarrow> bool list \<times> Recorder" where
  "SeenBefore_calls [] rec = ([], rec)"
| "SeenBefore_calls (key # keys) rec =
     (case SeenBefore key rec of
        (seen, rec') \<Rightarrow> (case SeenBefore_calls keys rec' of (bs, rec'') \<Rightarrow> (seen # bs, rec'')))"

text \<open>
  Modelled from the spec: \<^verbatim>\<open>route.NewResponder\<close> is outside the files at hand (only its
  test is there). The spec: a true result of \<^verbatim>\<open>SeenBefore\<close> makes the caller reject the
  request with a precondition-failed signal. It returns the responder (nil for a request
  whose key was seen before), the status it wrote itself if any
  (\<^verbatim>\<open>http.StatusPreconditionFailed\<close> is 412), and the recorder. The check is made for a
  request that carries a key.
\<close>

definition NewResponder ::
  "Recorder \<Rightarrow> string \<Rightarrow> string \<Rightarrow> http_request \<Rightarrow> (Responder option \<times> nat option) \<times> Recorder" where
  "NewResponder rec userID requestID r =
     (if idempotency_header r = []
      then ((Some \<lparr>XUserID = userID, XRequestID = requestID\<rparr>, None), rec)
      else
        (case SeenBefore (idempotency_header r) rec of
           (True, rec') \<Rightarrow> ((None, Some 412), rec')
         | (False, rec') \<Rightarrow> ((Some \<lparr>XUserID = userID, XRequestID = requestID\<rparr>, None), rec')))"


subsection \<open>The order of the calls\<close>

text \<open>
  The stage of the creation pipeline a call belongs to: the entity lookups of
  \<^verbatim>\<open>getTransferObjects\<close> (0), the limit check (1), the ledger post (2), the two customer
  checks (3, 4), the construction, upload and check of the file (5, 6, 7), the audit
  event (8), the persistence of the transfers after the loop (9). The calls of
  \<^verbatim>\<open>deleteUserTransfer\<close> are no stage of it (10).
\<close>

fun stage :: "call \<Rightarrow> nat" where
  "stage (CallGetUserReceiver a b) = 0"
| "stage (CallGetUserDepository a b) = 0"
| "stage (CallGetUserOriginator a b) = 0"
| "stage (CallAllowTransfer a) = 1"
| "stage (CallPostAccountTransaction a b c d e f) = 2"
| "stage (CallVerifyCustomerStatuses a b c d) = 3"
| "stage (CallVerifyDisclaimersAreAccepted a b c d) = 4"
| "stage (CallConstructFile a b c d e f g) = 5"
| "stage (CallCreateFile a b) = 6"
| "stage (CallCheckFile a b) = 7"
| "stage (CallWriteTransferEvent a b) = 8"
| "stage (CallRepoCreateUserTransfers a b) = 9"
| "stage (CallRepoGetUserTransfer a b) = 10"
| "stage (CallRepoDeleteUserTransfer a b) = 10"
| "stage (CallGetFileIDForTransfer a b) = 10"
| "stage (CallDeleteFile a) = 10"

text \<open>Iteration \<open>i\<close> has made its limit check somewhere in the trace, and the check passed.\<close>

definition limit_passed :: "env \<Rightarrow> nat \<Rightarrow> trace \<Rightarrow> bool" where
  "limit_passed env i tr \<longleftrightarrow>
     (\<exists>p1 p2 userID. tr = p1 @ (i, CallAllowTransfer userID) # p2
        \<and> allowTransfer env p1 userID = None)"

text \<open>
  The trace is the one a call of \<^verbatim>\<open>getTransferObjects\<close> in iteration \<open>i\<close> returned
  together with the four entities.
\<close>

definition objects_found :: "env \<Rightarrow> nat \<Rightarrow> trace \<Rightarrow> bool" where
  "objects_found env i tr \<longleftrightarrow>
     (\<exists>tr0 req userID receiver receiverDep orig origDep.
        getTransferObjects env i req userID tr0
          = ((Some receiver, Some receiverDep, Some orig, Some origDep, None), tr))"

text \<open>
  The calls \<open>es\<close>, made after the calls \<open>pre\<close>, keep the order of the pipeline: iteration by
  iteration and, within one, stage by stage from \<open>k\<close> on; a limit check comes when the
  entities are there, and a later stage of the iteration when its limit check has passed.
\<close>

fun ordered_from :: "env \<Rightarrow> trace \<Rightarrow> nat \<times> nat \<Rightarrow> trace \<Rightarrow> bool" where
  "ordered_from env pre k [] = True"
| "ordered_from env pre k (e # es) =
     (k \<le> (fst e, stage (snd e))
      \<and> (stage (snd e) = 1 \<longrightarrow> objects_found env (fst e) pre)
      \<and> (2 \<le> stage (snd e) \<and> stage (snd e) \<le> 8 \<longrightarrow> limit_passed env (fst e) pre)
      \<and> ordered_from env (pre @ [e]) (fst e, stage (snd e)) es)"

text \<open>
  What one iteration of the loop does to a trace that ends before stage \<open>k\<close>: it appends
  calls of its own index in pipeline order, an early \<^verbatim>\<open>return\<close> is a problem or a panic,
  and an iteration that goes through has uploaded its file and written its event.
\<close>

definition iteration_ok ::
  "env \<Rightarrow> Responder \<Rightarrow> nat \<Rightarrow> trace \<Rightarrow> nat \<times> nat \<Rightarrow> (response + transferRequest) \<times> trace \<Rightarrow> bool" where
  "iteration_ok env rsp i tr k out \<longleftrightarrow>
     (\<exists>seg. snd out = tr @ seg \<and> ordered_from env tr k seg
        \<and> (\<forall>e\<in>set seg. fst e = i \<and> stage (snd e) \<le> 8)
        \<and> (case fst out of
              Inl resp \<Rightarrow> resp = Panic \<or> (\<exists>e. resp = Problem e)
            | Inr req' \<Rightarrow>
                (\<exists>e\<in>set seg. stage (snd e) = 6)
                \<and> (i, CallWriteTransferEvent (XUserID rsp) req') \<in> set seg))"

text \<open>The same for the iterations \<open>i\<close> to \<open>i + n - 1\<close> of the loop.\<close>

definition loop_ok ::
  "env \<Rightarrow> nat \<Rightarrow> nat \<Rightarrow> trace \<Rightarrow> nat \<times> nat \<Rightarrow> (response + transferRequest list) \<times> trace \<Rightarrow> bool" where
  "loop_ok env i n tr k out \<longleftrightarrow>
     (\<exists>seg. snd out = tr @ seg \<and> ordered_from env tr k seg
        \<and> (\<forall>e\<in>set seg. i \<le> fst e \<and> fst e < i + n \<and> stage (snd e) \<le> 8)
        \<and> (case fst out of
              Inl resp \<Rightarrow> resp = Panic \<or> (\<exists>e. resp = Problem e)
            | Inr reqs' \<Rightarrow>
                length reqs' = n
                \<and> (\<forall>j<n. \<exists>e\<in>set seg. fst e = i + j \<and> stage (snd e) = 6)))"

section \<open>Example inputs\<close>

definition FromString_example :: "string \<Rightarrow> error + Amount" where
  "FromString_example s =
     (if s = ''USD 0.01'' then Inr \<lparr>amount_symbol = ''USD'', amount_number = 1\<rparr>
      else if s = ''USD 0.02'' then Inr \<lparr>amount_symbol = ''USD'', amount_number = 2\<rparr>
      else Inl (Err ''invalid amount''))"

definition credit_row :: "string \<Rightarrow> string \<Rightarrow> time \<Rightarrow> micro_deposit_row" where
  "credit_row dep amt t =
     \<lparr>depository_id = dep, user_id = ''user'', amount = amt, file_id = ''file'',
      created_at = t, deleted_at = None, merged_filename = None, row_scan_err = None\<rparr>"

definition db_of :: "micro_deposit_row list \<Rightarrow> SQLRepo" where
  "db_of rows = \<lparr>micro_deposits = rows, prepare_err = None, query_err = None, rows_err = None\<rparr>"

definition credit_example :: "string \<Rightarrow> time \<Rightarrow> UploadableCredit" where
  "credit_example dep t =
     \<lparr>DepositoryID = dep, UserID = ''user'',
      CreditAmount = \<lparr>amount_symbol = ''USD'', amount_number = 1\<rparr>,
      FileID = ''file'', CreatedAt = t\<rparr>"

definition request_example :: transferRequest where
  "request_example =
     \<lparr>req_Type = ''push'', req_Amount = \<lparr>amount_symbol = ''USD'', amount_number = 1250\<rparr>,
      req_Originator = ''orig-1'', req_OriginatorDepository = ''dep-orig'',
      req_Receiver = ''recv-1'', req_ReceiverDepository = ''dep-recv'',
      req_Description = ''rent'', req_StandardEntryClassCode = ''PPD'', req_SameDay = False,
      req_CCDDetail = None, req_IATDetail = None, req_TELDetail = None, req_WEBDetail = None,
      req_fileID = [], req_transactionID = [], req_remoteAddr = [], req_userID = []\<rparr>"

definition responder_example :: Responder where
  "responder_example = \<lparr>XUserID = ''user-1'', XRequestID = ''request-1''\<rparr>"

definition http_example :: "body \<Rightarrow> http_request" where
  "http_example b =
     \<lparr>http_body = b, idempotency_header = ''key-1'', remote_addr = ''10.0.0.1'',
      mux_vars = [(''transferId'', ''transfer-1'')]\<rparr>"

text \<open>
  Collaborators that accept everything: every entity is found and valid, both optional
  clients are there, the file is uploaded as \<open>file-1\<close>, the repository stores what it
  is given. The remote delete fails with a server error.
\<close>

definition env_example :: env where
  "env_example =
     \<lparr>GetUserReceiver = (\<lambda>tr rid uid. Inr \<lparr>receiver_ID = rid\<rparr>),
      Receiver_Validate = (\<lambda>r. None),
      GetUserDepository = (\<lambda>tr did uid. Inr \<lparr>dep_ID = did, dep_Status = DepositoryVerified\<rparr>),
      Depository_Validate = (\<lambda>d. None),
      GetUserOriginator = (\<lambda>tr oid uid. Inr \<lparr>originator_ID = oid\<rparr>),
      Originator_Validate = (\<lambda>orig. None),
      allowTransfer = (\<lambda>tr uid. None),
      accountsClient = True,
      postAccountTransaction = (\<lambda>tr uid od rd a t rid. Inr ''tx-1''),
      customersClient = True,
      verifyCustomerStatuses = (\<lambda>tr orig r rid uid. None),
      verifyDisclaimersAreAccepted = (\<lambda>tr orig r rid uid. None),
      ConstructFile = (\<lambda>tid key t r rd orig od. Inr ''ach-file''),
      CreateFile = (\<lambda>tr key f. Inr ''file-1''),
      CheckFile = (\<lambda>tr fid uid. None),
      writeTransferEvent = (\<lambda>tr uid req. None),
      repo_createUserTransfers = (\<lambda>tr uid reqs. Inr (map (\<lambda>req. asTransfer req ''stored'' 0) reqs)),
      repo_getUserTransfer = (\<lambda>tr tid uid. Inr (asTransfer request_example tid 0)),
      repo_deleteUserTransfer = (\<lambda>tr tid uid. None),
      GetFileIDForTransfer = (\<lambda>tr tid uid. (''file-1'', None)),
      DeleteFile = (\<lambda>tr fid. Some (Err ''500 Internal Server Error'')),
      base_ID_key = ''generated-key'',
      base_ID_transfer = (\<lambda>i. ''transfer-1''),
      base_Now = 0\<rparr>"

text \<open>The same, with a limit checker that lets one transfer through and rejects the next.\<close>

definition env_limit_example :: env where
  "env_limit_example =
     env_example\<lparr>allowTransfer :=
       (\<lambda>tr uid. if (0, CallAllowTransfer uid) \<in> set tr then Some (Err ''over the limit'') else None)\<rparr>"

text \<open>
  The example request as an iteration with these collaborators leaves it, and the calls
  the iteration \<open>i\<close> makes for it.
\<close>

definition processed_example :: transferRequest where
  "processed_example =
     request_example\<lparr>req_remoteAddr := ''10.0.0.1'', req_userID := ''user-1'',
       req_fileID := ''file-1'', req_transactionID := ''tx-1''\<rparr>"

definition lookups_example :: "nat \<Rightarrow> trace" where
  "lookups_example i =
     [(i, CallGetUserReceiver ''recv-1'' ''user-1''),
      (i, CallGetUserDepository ''dep-recv'' ''user-1''),
      (i, CallGetUserOriginator ''orig-1'' ''user-1''),
      (i, CallGetUserDepository ''dep-orig'' ''user-1'')]"

definition effects_example :: "nat \<Rightarrow> trace" where
  "effects_example i =
     [(i, CallPostAccountTransaction ''user-1''
            (Some \<lparr>dep_ID = ''dep-orig'', dep_Status = DepositoryVerified\<rparr>)
            (Some \<lparr>dep_ID = ''dep-recv'', dep_Status = DepositoryVerified\<rparr>)
            \<lparr>amount_symbol = ''USD'', amount_number = 1250\<rparr> ''push'' ''request-1''),
      (i, CallVerifyCustomerStatuses (Some \<lparr>originator_ID = ''orig-1''\<rparr>)
            (Some \<lparr>receiver_ID = ''recv-1''\<rparr>) ''request-1'' ''user-1''),
      (i, CallVerifyDisclaimersAreAccepted (Some \<lparr>originator_ID = ''orig-1''\<rparr>)
            (Some \<lparr>receiver_ID = ''recv-1''\<rparr>) ''request-1'' ''user-1''),
      (i, CallConstructFile ''transfer-1'' ''key-1''
            (asTransfer (request_example\<lparr>req_remoteAddr := ''10.0.0.1'', req_userID := ''user-1''\<rparr>)
               ''transfer-1'' 0)
            (Some \<lparr>receiver_ID = ''recv-1''\<rparr>)
            (Some \<lparr>dep_ID = ''dep-recv'', dep_Status = DepositoryVerified\<rparr>)
            (Some \<lparr>originator_ID = ''orig-1''\<rparr>)
            (Some \<lparr>dep_ID = ''dep-orig'', dep_Status = DepositoryVerified\<rparr>)),
      (i, CallCreateFile ''key-1'' ''ach-file''),
      (i, CallCheckFile ''file-1'' ''user-1''),
      (i, CallWriteTransferEvent ''user-1'' processed_example)]"

definition calls_example :: "nat \<Rightarrow> trace" where
  "calls_example i = lookups_example i @ (i, CallAllowTransfer ''user-1'') # effects_example i"


section \<open>Properties of the cursor\<close>

lemma Max_insert_step:
  fixes mx c :: int
  assumes "finite S"
  shows "Max (insert (if mx < c then c else mx) S) = Max (insert mx (insert c S))"
proof (cases "S = {}")
  case True
  then show ?thesis by (simp add: max_def)
next
  case False
  with assms show ?thesis by (simp add: max_def)
qed

lemma scan_rows_Inr:
  "scan_rows F rs mx acc = Inr (mx', out) \<Longrightarrow>
     (\<exists>as. length as = length rs \<and> out = acc @ map2 as_credit rs as
         \<and> (\<forall>i<length rs. row_scan_err (rs ! i) = None \<and> F (amount (rs ! i)) = Inr (as ! i)))
     \<and> mx' = Max (insert mx (set (map created_at rs)))"
proof (induction rs arbitrary: mx acc)
  case Nil
  then show ?case by simp
next
  case (Cons r rs)
  from Cons.prems obtain a where ok: "row_scan_err r = None" "F (amount r) = Inr a"
    and rest: "scan_rows F rs (if mx < created_at r then created_at r else mx) (acc @ [as_credit r a]) = Inr (mx', out)"
    by (auto split: option.splits sum.splits)
  from Cons.IH [OF rest] obtain as where as: "length as = length rs"
      "out = (acc @ [as_credit r a]) @ map2 as_credit rs as"
      "\<forall>i<length rs. row_scan_err (rs ! i) = None \<and> F (amount (rs ! i)) = Inr (as ! i)"
    and mx': "mx' = Max (insert (if mx < created_at r then created_at r else mx) (set (map created_at rs)))"
    by blast
  have "length (a # as) = length (r # rs) \<and> out = acc @ map2 as_credit (r # rs) (a # as)
      \<and> (\<forall>i<length (r # rs). row_scan_err ((r # rs) ! i) = None \<and> F (amount ((r # rs) ! i)) = Inr ((a # as) ! i))"
    using as ok by (auto simp: nth_Cons split: nat.splits)
  moreover have "mx' = Max (insert mx (set (map created_at (r # rs))))"
    using mx' Max_insert_step [of "set (map created_at rs)" mx "created_at r"] by simp
  ultimately show ?case by blast
qed

lemma scan_rows_Inl_iff:
  "(\<exists>e. scan_rows F rs mx acc = Inl e) \<longleftrightarrow>
     (\<exists>r\<in>set rs. row_scan_err r \<noteq> None \<or> (\<exists>e. F (amount r) = Inl e))"
  by (induction rs arbitrary: mx acc) (auto split: option.splits sum.splits)

lemma select_length: "0 \<le> n \<Longrightarrow> int (length (select_micro_deposits tbl t n)) \<le> n"
  by (simp add: select_micro_deposits_def sql_limit_def)

lemma select_sorted: "sorted (map created_at (select_micro_deposits tbl t n))"
  by (simp add: select_micro_deposits_def sql_limit_def sorted_wrt_take flip: take_map)

lemma select_set:
  "r \<in> set (select_micro_deposits tbl t n) \<Longrightarrow> r \<in> set tbl \<and> pending_after t r"
  by (auto simp: select_micro_deposits_def sql_limit_def dest: in_set_takeD split: if_splits)

lemma select_later:
  assumes "w \<le> t"
  shows "select_micro_deposits tbl t n =
     sql_limit n (filter (\<lambda>r. t < created_at r) (sort_key created_at (filter (pending_after w) tbl)))"
proof -
  have "filter (pending_after t) tbl = filter (\<lambda>r. t < created_at r) (filter (pending_after w) tbl)"
    using assms by (auto simp: pending_after_def intro!: filter_cong)
  then show ?thesis
    by (simp add: select_micro_deposits_def filter_sort del: filter_filter)
qed


lemma delivered_set:
  "r \<in> set (delivered db cur) \<Longrightarrow> r \<in> set (micro_deposits db) \<and> pending_after (newerThan cur) r"
  by (auto simp: delivered_def Let_def dest: in_set_takeD select_set split: option.splits)

lemma delivered_length:
  "0 \<le> BatchSize cur \<Longrightarrow> int (length (delivered db cur)) \<le> BatchSize cur"
  using select_length [of "BatchSize cur" "micro_deposits db" "newerThan cur"]
  by (auto simp: delivered_def Let_def split: option.splits)

lemma delivered_sorted: "sorted (map created_at (delivered db cur))"
  using select_sorted [of "micro_deposits db" "newerThan cur" "BatchSize cur"]
  by (auto simp: delivered_def Let_def sorted_wrt_take simp flip: take_map split: option.splits)

lemma CreatedAt_map2:
  "length as = length rs \<Longrightarrow> map CreatedAt (map2 as_credit rs as) = map created_at rs"
  by (induction rs as rule: list_induct2') (simp_all add: as_credit_def)

lemma Next_cases:
  "(\<exists>e. Next F db cur = (([], Some e), cur)) \<or>
   (\<exists>as. length as = length (delivered db cur)
      \<and> (\<forall>i<length as. F (amount (delivered db cur ! i)) = Inr (as ! i))
      \<and> Next F db cur =
          ((map2 as_credit (delivered db cur) as, map_option snd (rows_err db)),
           cur\<lparr>newerThan := Max (insert (newerThan cur) (set (map created_at (delivered db cur))))\<rparr>))"
proof (cases "scan_rows F (delivered db cur) (newerThan cur) []")
  case (Inl e)
  then show ?thesis by (auto simp: Next_def split: option.splits)
next
  case (Inr p)
  obtain mx out where p: "p = (mx, out)" by (cases p)
  from scan_rows_Inr [OF Inr [unfolded p]] obtain as where
    "length as = length (delivered db cur)" "out = map2 as_credit (delivered db cur) as"
    "\<forall>i<length (delivered db cur). F (amount (delivered db cur ! i)) = Inr (as ! i)"
    "mx = Max (insert (newerThan cur) (set (map created_at (delivered db cur))))"
    by auto
  then show ?thesis using Inr p by (auto simp: Next_def split: option.splits)
qed


text \<open>
  Claim C7. A call of \<^verbatim>\<open>Next\<close> on a cursor of batch size \<open>0 \<le> BatchSize\<close> returns at most
  \<open>BatchSize\<close> credits; each comes from a row of the table that is not deleted, not merged
  and created after the watermark; they are in ascending order of creation; afterwards
  the watermark is the greatest creation time of the batch, or unchanged when the batch is
  empty. And when the pending credits after \<open>w\<close> are \<open>r1\<close>, \<open>r2\<close>, \<open>r3\<close>, created at
  \<open>t1 < t2 < t3\<close>, a cursor of batch size 2 starting at \<open>w\<close> returns \<open>[r1, r2]\<close> and moves to
  \<open>t2\<close>, then \<open>[r3]\<close> and moves to \<open>t3\<close>, then nothing and stays at \<open>t3\<close>.
\<close>

theorem Next_batch_and_watermark:
  assumes size: "0 \<le> BatchSize cur"
    and nxt: "Next F db cur = ((batch, err), cur')"
  shows "int (length batch) \<le> BatchSize cur
    \<and> (\<forall>c\<in>set batch. \<exists>r\<in>set (micro_deposits db).
          pending_after (newerThan cur) r \<and> (\<exists>a. F (amount r) = Inr a \<and> c = as_credit r a))
    \<and> sorted (map CreatedAt batch)
    \<and> newerThan cur' = (if batch = [] then newerThan cur else Max (set (map CreatedAt batch)))
    \<and> BatchSize cur' = BatchSize cur
    \<and> (\<forall>w t1 t2 t3 r1 r2 r3 a1 a2 a3.
          prepare_err db = None \<and> query_err db = None \<and> rows_err db = None
          \<and> sort_key created_at (filter (pending_after w) (micro_deposits db)) = [r1, r2, r3]
          \<and> created_at r1 = t1 \<and> created_at r2 = t2 \<and> created_at r3 = t3
          \<and> w < t1 \<and> t1 < t2 \<and> t2 < t3
          \<and> row_scan_err r1 = None \<and> row_scan_err r2 = None \<and> row_scan_err r3 = None
          \<and> F (amount r1) = Inr a1 \<and> F (amount r2) = Inr a2 \<and> F (amount r3) = Inr a3
          \<longrightarrow> Next F db (GetCursor w 2)
                = (([as_credit r1 a1, as_credit r2 a2], None), (GetCursor w 2)\<lparr>newerThan := t2\<rparr>)
            \<and> Next F db ((GetCursor w 2)\<lparr>newerThan := t2\<rparr>)
                = (([as_credit r3 a3], None), (GetCursor w 2)\<lparr>newerThan := t3\<rparr>)
            \<and> Next F db ((GetCursor w 2)\<lparr>newerThan := t3\<rparr>)
                = (([], None), (GetCursor w 2)\<lparr>newerThan := t3\<rparr>))"
proof -
  let ?rows = "delivered db cur"
  have general: "int (length batch) \<le> BatchSize cur
    \<and> (\<forall>c\<in>set batch. \<exists>r\<in>set (micro_deposits db).
          pending_after (newerThan cur) r \<and> (\<exists>a. F (amount r) = Inr a \<and> c = as_credit r a))
    \<and> sorted (map CreatedAt batch)
    \<and> newerThan cur' = (if batch = [] then newerThan cur else Max (set (map CreatedAt batch)))
    \<and> BatchSize cur' = BatchSize cur"
    using Next_cases [of F db cur]
  proof
    assume "\<exists>e. Next F db cur = (([], Some e), cur)"
    with nxt have "batch = []" "cur' = cur" by auto
    with size show ?thesis by simp
  next
    assume "\<exists>as. length as = length ?rows
      \<and> (\<forall>i<length as. F (amount (?rows ! i)) = Inr (as ! i))
      \<and> Next F db cur = ((map2 as_credit ?rows as, map_option snd (rows_err db)),
           cur\<lparr>newerThan := Max (insert (newerThan cur) (set (map created_at ?rows)))\<rparr>)"
    then obtain as where len: "length as = length ?rows"
      and amt: "\<forall>i<length as. F (amount (?rows ! i)) = Inr (as ! i)"
      and batch: "batch = map2 as_credit ?rows as"
      and cur': "cur' = cur\<lparr>newerThan := Max (insert (newerThan cur) (set (map created_at ?rows)))\<rparr>"
      using nxt by auto
    have created: "map CreatedAt batch = map created_at ?rows"
      using CreatedAt_map2 [OF len] batch by simp
    have 1: "int (length batch) \<le> BatchSize cur"
      using delivered_length [OF size, of db] len batch by simp
    have 2: "\<forall>c\<in>set batch. \<exists>r\<in>set (micro_deposits db).
          pending_after (newerThan cur) r \<and> (\<exists>a. F (amount r) = Inr a \<and> c = as_credit r a)"
    proof
      fix c assume "c \<in> set batch"
      then obtain i where i: "i < length ?rows" "c = as_credit (?rows ! i) (as ! i)"
        using len batch by (auto simp: in_set_conv_nth)
      then have "?rows ! i \<in> set ?rows" by simp
      then have "?rows ! i \<in> set (micro_deposits db) \<and> pending_after (newerThan cur) (?rows ! i)"
        by (rule delivered_set)
      moreover have "F (amount (?rows ! i)) = Inr (as ! i)" using amt i len by simp
      ultimately show "\<exists>r\<in>set (micro_deposits db).
          pending_after (newerThan cur) r \<and> (\<exists>a. F (amount r) = Inr a \<and> c = as_credit r a)"
        using i by blast
    qed
    have 3: "sorted (map CreatedAt batch)"
      using delivered_sorted [of db cur] created by simp
    have 4: "newerThan cur' = (if batch = [] then newerThan cur else Max (set (map CreatedAt batch)))"
    proof (cases "?rows = []")
      case True
      then show ?thesis using cur' batch by simp
    next
      case False
      then have ne: "batch \<noteq> []" using created by auto
      have "\<forall>t\<in>set (map created_at ?rows). newerThan cur < t"
        using delivered_set [of _ db cur] by (auto simp: pending_after_def)
      then have "newerThan cur \<le> Max (set (map created_at ?rows))"
        using False by (metis List.finite_set Max_in less_le_not_le linorder_le_cases map_is_Nil_conv set_empty)
      then have "Max (insert (newerThan cur) (set (map created_at ?rows))) = Max (set (map created_at ?rows))"
        using False by (simp add: max_def)
      then show ?thesis using cur' ne created by simp
    qed
    have 5: "BatchSize cur' = BatchSize cur" using cur' by simp
    from 1 2 3 4 5 show ?thesis by blast
  qed
  have scenario: "Next F db (GetCursor w 2)
                = (([as_credit r1 a1, as_credit r2 a2], None), (GetCursor w 2)\<lparr>newerThan := t2\<rparr>)
            \<and> Next F db ((GetCursor w 2)\<lparr>newerThan := t2\<rparr>)
                = (([as_credit r3 a3], None), (GetCursor w 2)\<lparr>newerThan := t3\<rparr>)
            \<and> Next F db ((GetCursor w 2)\<lparr>newerThan := t3\<rparr>)
                = (([], None), (GetCursor w 2)\<lparr>newerThan := t3\<rparr>)"
    if ok: "prepare_err db = None" "query_err db = None" "rows_err db = None"
      and tbl: "sort_key created_at (filter (pending_after w) (micro_deposits db)) = [r1, r2, r3]"
      and ts: "created_at r1 = t1" "created_at r2 = t2" "created_at r3 = t3" "w < t1" "t1 < t2" "t2 < t3"
      and sc: "row_scan_err r1 = None" "row_scan_err r2 = None" "row_scan_err r3 = None"
      and am: "F (amount r1) = Inr a1" "F (amount r2) = Inr a2" "F (amount r3) = Inr a3"
    for w t1 t2 t3 r1 r2 r3 a1 a2 a3
  proof -
    have sel: "select_micro_deposits (micro_deposits db) t 2 = take 2 (filter (\<lambda>r. t < created_at r) [r1, r2, r3])"
      if "w \<le> t" for t
      using select_later [OF that, of "micro_deposits db" 2] tbl by (simp add: sql_limit_def)
    have d1: "delivered db (GetCursor w 2) = [r1, r2]"
      using sel [of w] ok ts by (simp add: delivered_def GetCursor_def)
    have d2: "delivered db ((GetCursor w 2)\<lparr>newerThan := t2\<rparr>) = [r3]"
      using sel [of t2] ok ts by (simp add: delivered_def GetCursor_def)
    have d3: "delivered db ((GetCursor w 2)\<lparr>newerThan := t3\<rparr>) = []"
      using sel [of t3] ok ts by (simp add: delivered_def GetCursor_def)
    show ?thesis
      using ok ts sc am by (simp add: Next_def d1 d2 d3) (simp add: GetCursor_def)
  qed
  from general scenario show ?thesis by blast
qed


text \<open>
  Claim C9. If a row that \<^verbatim>\<open>Next\<close> reads has an amount that \<^verbatim>\<open>FromString\<close> rejects, the
  call returns an error and no batch, and the cursor stays where it was.
\<close>

theorem Next_malformed_amount_is_fatal:
  assumes "r \<in> set (delivered db cur)" and "FromString (amount r) = Inl e"
  shows "\<exists>e'. Next FromString db cur = (([], Some e'), cur)"
proof -
  have "\<exists>e'. scan_rows FromString (delivered db cur) (newerThan cur) [] = Inl e'"
    using assms scan_rows_Inl_iff [of FromString "delivered db cur" "newerThan cur" "[]"] by blast
  then show ?thesis
    by (auto simp: Next_def split: option.splits)
qed

lemma example_rows_simps:
  "deleted_at (credit_row d a t) = None" "merged_filename (credit_row d a t) = None"
  "created_at (credit_row d a t) = t" "row_scan_err (credit_row d a t) = None"
  "amount (credit_row d a t) = a"
  "micro_deposits (db_of rows) = rows" "prepare_err (db_of rows) = None"
  "query_err (db_of rows) = None" "rows_err (db_of rows) = None"
  by (simp_all add: credit_row_def db_of_def)

lemma as_credit_example:
  "as_credit (credit_row d ''USD 0.01'' t) \<lparr>amount_symbol = ''USD'', amount_number = 1\<rparr> = credit_example d t"
  by (simp add: as_credit_def credit_row_def credit_example_def)

theorem Next_malformed_amount_is_fatal_witness:
  "credit_row ''d2'' ''1 cent'' 20
      \<in> set (delivered (db_of [credit_row ''d1'' ''USD 0.01'' 10, credit_row ''d2'' ''1 cent'' 20]) (GetCursor 0 5))
   \<and> FromString_example (amount (credit_row ''d2'' ''1 cent'' 20)) = Inl (Err ''invalid amount'')
   \<and> (\<exists>e'. Next FromString_example (db_of [credit_row ''d1'' ''USD 0.01'' 10, credit_row ''d2'' ''1 cent'' 20])
              (GetCursor 0 5) = (([], Some e'), GetCursor 0 5))"
proof -
  have 1: "credit_row ''d2'' ''1 cent'' 20
      \<in> set (delivered (db_of [credit_row ''d1'' ''USD 0.01'' 10, credit_row ''d2'' ''1 cent'' 20]) (GetCursor 0 5))"
    by (simp add: delivered_def select_micro_deposits_def sql_limit_def pending_after_def
        example_rows_simps GetCursor_def)
  have 2: "FromString_example (amount (credit_row ''d2'' ''1 cent'' 20)) = Inl (Err ''invalid amount'')"
    by (simp add: FromString_example_def example_rows_simps)
  from Next_malformed_amount_is_fatal
      [of "credit_row ''d2'' ''1 cent'' 20"
          "db_of [credit_row ''d1'' ''USD 0.01'' 10, credit_row ''d2'' ''1 cent'' 20]"
          "GetCursor 0 5" FromString_example "Err ''invalid amount''"] 1 2
  show ?thesis by blast
qed

text \<open>
  No credit is returned twice: a call leaves the watermark at or above the creation time
  of every credit it returns, and every credit that later calls return is created after
  the watermark.
\<close>

lemma Next_watermark_bounds:
  assumes "Next F db cur = ((batch, err), cur')"
  shows "newerThan cur \<le> newerThan cur'
    \<and> (\<forall>c\<in>set batch. newerThan cur < CreatedAt c \<and> CreatedAt c \<le> newerThan cur')"
  using Next_cases [of F db cur]
proof
  assume "\<exists>e. Next F db cur = (([], Some e), cur)"
  with assms show ?thesis by auto
next
  let ?rows = "delivered db cur"
  assume "\<exists>as. length as = length ?rows
      \<and> (\<forall>i<length as. F (amount (?rows ! i)) = Inr (as ! i))
      \<and> Next F db cur = ((map2 as_credit ?rows as, map_option snd (rows_err db)),
           cur\<lparr>newerThan := Max (insert (newerThan cur) (set (map created_at ?rows)))\<rparr>)"
  then obtain as where len: "length as = length ?rows"
    and batch: "batch = map2 as_credit ?rows as"
    and cur': "newerThan cur' = Max (insert (newerThan cur) (set (map created_at ?rows)))"
    using assms by auto
  have created: "map CreatedAt batch = map created_at ?rows"
    using CreatedAt_map2 [OF len] batch by simp
  have 1: "newerThan cur \<le> newerThan cur'"
    unfolding cur' by simp
  have 2: "newerThan cur < CreatedAt c \<and> CreatedAt c \<le> newerThan cur'" if "c \<in> set batch" for c
  proof -
    from that have "CreatedAt c \<in> set (map CreatedAt batch)" by simp
    then have mem: "CreatedAt c \<in> set (map created_at ?rows)" using created by simp
    then obtain r where "r \<in> set ?rows" "created_at r = CreatedAt c" by auto
    then have "newerThan cur < CreatedAt c"
      using delivered_set [of r db cur] by (simp add: pending_after_def)
    moreover have "CreatedAt c \<le> newerThan cur'"
      unfolding cur' using mem by simp
    ultimately show ?thesis by simp
  qed
  from 1 2 show ?thesis by blast
qed

lemma drain_newer:
  "c \<in> set (drain n F db cur) \<Longrightarrow> newerThan cur < CreatedAt c"
proof (induction n arbitrary: cur)
  case 0
  then show ?case by simp
next
  case (Suc n)
  obtain batch err cur' where nxt: "Next F db cur = ((batch, err), cur')"
    by (metis prod.exhaust)
  note b = Next_watermark_bounds [OF nxt]
  from Suc.prems nxt consider "c \<in> set batch" | "c \<in> set (drain n F db cur')" by auto
  then show ?case
  proof cases
    case 1
    with b show ?thesis by blast
  next
    case 2
    then have "newerThan cur' < CreatedAt c" by (rule Suc.IH)
    with b show ?thesis by simp
  qed
qed

lemma Next_not_returned_again:
  assumes "Next F db cur = ((batch, err), cur')" "c \<in> set batch" "c' \<in> set (drain n F db cur')"
  shows "CreatedAt c < CreatedAt c'"
  using Next_watermark_bounds [OF assms(1)] assms(2) drain_newer [OF assms(3)] by fastforce

text \<open>
  Claim C2, where the code departs from it. Three pending credits created at the same
  instant and a batch size of 2: the first call returns two of them and moves the
  watermark to that instant; the third credit is still pending, and no number of further
  calls returns it.
\<close>

theorem Next_skips_tied_credit:
  "pending_after 0 (credit_row ''d3'' ''USD 0.01'' 10)
   \<and> Next FromString_example
        (db_of [credit_row ''d1'' ''USD 0.01'' 10, credit_row ''d2'' ''USD 0.01'' 10, credit_row ''d3'' ''USD 0.01'' 10])
        (GetCursor 0 2)
      = (([credit_example ''d1'' 10, credit_example ''d2'' 10], None), \<lparr>BatchSize = 2, newerThan = 10\<rparr>)
   \<and> (\<forall>n. drain n FromString_example
        (db_of [credit_row ''d1'' ''USD 0.01'' 10, credit_row ''d2'' ''USD 0.01'' 10, credit_row ''d3'' ''USD 0.01'' 10])
        \<lparr>BatchSize = 2, newerThan = 10\<rparr> = [])"
proof -
  let ?db = "db_of [credit_row ''d1'' ''USD 0.01'' 10, credit_row ''d2'' ''USD 0.01'' 10, credit_row ''d3'' ''USD 0.01'' 10]"
  have 1: "pending_after 0 (credit_row ''d3'' ''USD 0.01'' 10)"
    by (simp add: pending_after_def example_rows_simps)
  have 2: "Next FromString_example ?db (GetCursor 0 2)
      = (([credit_example ''d1'' 10, credit_example ''d2'' 10], None), \<lparr>BatchSize = 2, newerThan = 10\<rparr>)"
    by (simp add: Next_def delivered_def select_micro_deposits_def sql_limit_def pending_after_def
        example_rows_simps GetCursor_def FromString_example_def as_credit_example)
  have 3: "Next FromString_example ?db \<lparr>BatchSize = 2, newerThan = 10\<rparr>
      = (([], None), \<lparr>BatchSize = 2, newerThan = 10\<rparr>)"
    by (simp add: Next_def delivered_def select_micro_deposits_def sql_limit_def pending_after_def
        example_rows_simps)
  have "drain n FromString_example ?db \<lparr>BatchSize = 2, newerThan = 10\<rparr> = []" for n
    by (induction n) (simp_all add: 3)
  with 1 2 show ?thesis by blast
qed

theorem Next_batch_and_watermark_witness:
  "Next FromString_example
        (db_of [credit_row ''d3'' ''USD 0.01'' 30, credit_row ''d1'' ''USD 0.01'' 10, credit_row ''d2'' ''USD 0.01'' 20])
        (GetCursor 0 2)
      = (([credit_example ''d1'' 10, credit_example ''d2'' 20], None), (GetCursor 0 2)\<lparr>newerThan := 20\<rparr>)
   \<and> Next FromString_example
        (db_of [credit_row ''d3'' ''USD 0.01'' 30, credit_row ''d1'' ''USD 0.01'' 10, credit_row ''d2'' ''USD 0.01'' 20])
        ((GetCursor 0 2)\<lparr>newerThan := 20\<rparr>)
      = (([credit_example ''d3'' 30], None), (GetCursor 0 2)\<lparr>newerThan := 30\<rparr>)
   \<and> Next FromString_example
        (db_of [credit_row ''d3'' ''USD 0.01'' 30, credit_row ''d1'' ''USD 0.01'' 10, credit_row ''d2'' ''USD 0.01'' 20])
        ((GetCursor 0 2)\<lparr>newerThan := 30\<rparr>)
      = (([], None), (GetCursor 0 2)\<lparr>newerThan := 30\<rparr>)
   \<and> int (length [credit_example ''d1'' 10, credit_example ''d2'' 20]) \<le> BatchSize (GetCursor 0 2)
   \<and> newerThan ((GetCursor 0 2)\<lparr>newerThan := 20\<rparr>)
       = Max (set (map CreatedAt [credit_example ''d1'' 10, credit_example ''d2'' 20]))"
proof -
  let ?db = "db_of [credit_row ''d3'' ''USD 0.01'' 30, credit_row ''d1'' ''USD 0.01'' 10, credit_row ''d2'' ''USD 0.01'' 20]"
  have size: "0 \<le> BatchSize (GetCursor 0 2)" by (simp add: GetCursor_def)
  have nxt: "Next FromString_example ?db (GetCursor 0 2)
      = (([credit_example ''d1'' 10, credit_example ''d2'' 20], None), (GetCursor 0 2)\<lparr>newerThan := 20\<rparr>)"
    by (simp add: Next_def delivered_def select_micro_deposits_def sql_limit_def pending_after_def
        example_rows_simps GetCursor_def FromString_example_def as_credit_example)
  have srt: "sort_key created_at (filter (pending_after 0) (micro_deposits ?db))
      = [credit_row ''d1'' ''USD 0.01'' 10, credit_row ''d2'' ''USD 0.01'' 20, credit_row ''d3'' ''USD 0.01'' 30]"
    by (simp add: pending_after_def example_rows_simps)
  note inst = Next_batch_and_watermark [OF size nxt]
  from inst have scen: "\<forall>w t1 t2 t3 r1 r2 r3 a1 a2 a3.
          prepare_err ?db = None \<and> query_err ?db = None \<and> rows_err ?db = None
          \<and> sort_key created_at (filter (pending_after w) (micro_deposits ?db)) = [r1, r2, r3]
          \<and> created_at r1 = t1 \<and> created_at r2 = t2 \<and> created_at r3 = t3
          \<and> w < t1 \<and> t1 < t2 \<and> t2 < t3
          \<and> row_scan_err r1 = None \<and> row_scan_err r2 = None \<and> row_scan_err r3 = None
          \<and> FromString_example (amount r1) = Inr a1 \<and> FromString_example (amount r2) = Inr a2
          \<and> FromString_example (amount r3) = Inr a3
          \<longrightarrow> Next FromString_example ?db (GetCursor w 2)
                = (([as_credit r1 a1, as_credit r2 a2], None), (GetCursor w 2)\<lparr>newerThan := t2\<rparr>)
            \<and> Next FromString_example ?db ((GetCursor w 2)\<lparr>newerThan := t2\<rparr>)
                = (([as_credit r3 a3], None), (GetCursor w 2)\<lparr>newerThan := t3\<rparr>)
            \<and> Next FromString_example ?db ((GetCursor w 2)\<lparr>newerThan := t3\<rparr>)
                = (([], None), (GetCursor w 2)\<lparr>newerThan := t3\<rparr>)"
    by blast
  have "Next FromString_example ?db (GetCursor 0 2)
                = (([as_credit (credit_row ''d1'' ''USD 0.01'' 10) \<lparr>amount_symbol = ''USD'', amount_number = 1\<rparr>,
                     as_credit (credit_row ''d2'' ''USD 0.01'' 20) \<lparr>amount_symbol = ''USD'', amount_number = 1\<rparr>], None),
                   (GetCursor 0 2)\<lparr>newerThan := 20\<rparr>)
            \<and> Next FromString_example ?db ((GetCursor 0 2)\<lparr>newerThan := 20\<rparr>)
                = (([as_credit (credit_row ''d3'' ''USD 0.01'' 30) \<lparr>amount_symbol = ''USD'', amount_number = 1\<rparr>], None),
                   (GetCursor 0 2)\<lparr>newerThan := 30\<rparr>)
            \<and> Next FromString_example ?db ((GetCursor 0 2)\<lparr>newerThan := 30\<rparr>)
                = (([], None), (GetCursor 0 2)\<lparr>newerThan := 30\<rparr>)"
    using srt
    by (intro scen [rule_format, where w = 0 and ?t1.0 = 10 and ?t2.0 = 20 and ?t3.0 = 30])
       (simp add: example_rows_simps FromString_example_def pending_after_def)
  moreover from inst have "int (length [credit_example ''d1'' 10, credit_example ''d2'' 20]) \<le> BatchSize (GetCursor 0 2)"
    by blast
  moreover from inst have "newerThan ((GetCursor 0 2)\<lparr>newerThan := 20\<rparr>)
       = Max (set (map CreatedAt [credit_example ''d1'' 10, credit_example ''d2'' 20]))"
    by simp
  ultimately show ?thesis by (simp add: as_credit_example)
qed

section \<open>Properties of the transfer requests\<close>

lemma sublist_strings_Join: "x \<in> set xs \<Longrightarrow> sublist x (strings_Join xs sep)"
proof (induction xs sep rule: strings_Join.induct)
  case (1 sep)
  then show ?case by simp
next
  case (2 x' sep)
  then show ?case by simp
next
  case (3 x' y ys sep)
  show ?case
  proof (cases "x = x'")
    case True
    then show ?thesis by (simp add: sublist_append_rightI)
  next
    case False
    with 3 have "sublist x (strings_Join (y # ys) sep)" by simp
    then obtain ps ss where "strings_Join (y # ys) sep = ps @ x @ ss"
      unfolding sublist_def by blast
    then have "strings_Join (x' # y # ys) sep = (x' @ sep @ ps) @ x @ ss"
      by simp
    then show ?thesis unfolding sublist_def by blast
  qed
qed

lemma sublist_between: "sublist x y \<Longrightarrow> sublist x (a @ y @ b)"
proof -
  assume "sublist x y"
  then obtain ps ss where "y = ps @ x @ ss" unfolding sublist_def by blast
  then have "a @ y @ b = (a @ ps) @ x @ (ss @ b)" by simp
  then show ?thesis unfolding sublist_def by blast
qed

lemma set_check: "set (check name s missing) = set missing \<union> (if s = [] then {name} else {})"
  by (simp add: check_def)

lemma check_Nil: "check name s missing = [] \<longleftrightarrow> missing = [] \<and> s \<noteq> []"
  by (simp add: check_def)

lemma missing_names_Nil:
  "missing_names r = [] \<longleftrightarrow>
     req_Type r \<noteq> [] \<and> req_Originator r \<noteq> [] \<and> req_OriginatorDepository r \<noteq> []
     \<and> req_Receiver r \<noteq> [] \<and> req_ReceiverDepository r \<noteq> []
     \<and> req_StandardEntryClassCode r \<noteq> []"
  unfolding missing_names_def check_Nil by blast

lemma set_missing_names:
  "set (missing_names r) =
     (if req_Type r = [] then {''transferType''} else {})
     \<union> (if req_Originator r = [] then {''originator''} else {})
     \<union> (if req_OriginatorDepository r = [] then {''originatorDepository''} else {})
     \<union> (if req_Receiver r = [] then {''receiver''} else {})
     \<union> (if req_ReceiverDepository r = [] then {''receiverDepository''} else {})
     \<union> (if req_StandardEntryClassCode r = [] then {''standardEntryClassCode''} else {})"
  unfolding missing_names_def set_check by simp

text \<open>
  Claim C8. A request with an empty required field (transfer type, originator, originator
  depository, receiver, receiver depository, standard-entry-class code) makes
  \<^verbatim>\<open>missingFields\<close> return one error whose message joins the names of all the empty
  fields, the field's own name among them; and there is no error exactly when none of the
  six is empty.
\<close>

theorem missingFields_names_every_missing_field:
  "(\<forall>(name, v) \<in> set [(''transferType'', req_Type r), (''originator'', req_Originator r),
       (''originatorDepository'', req_OriginatorDepository r), (''receiver'', req_Receiver r),
       (''receiverDepository'', req_ReceiverDepository r),
       (''standardEntryClassCode'', req_StandardEntryClassCode r)].
      v = [] \<longrightarrow>
        (\<exists>msg. missingFields r = Some (Err msg)
           \<and> msg = ''missing '' @ strings_Join (missing_names r) '', '' @ '' JSON field(s)''
           \<and> name \<in> set (missing_names r) \<and> sublist name msg))
   \<and> (missingFields r = None \<longleftrightarrow>
        req_Type r \<noteq> [] \<and> req_Originator r \<noteq> [] \<and> req_OriginatorDepository r \<noteq> []
        \<and> req_Receiver r \<noteq> [] \<and> req_ReceiverDepository r \<noteq> []
        \<and> req_StandardEntryClassCode r \<noteq> [])"
proof -
  let ?msg = "''missing '' @ strings_Join (missing_names r) '', '' @ '' JSON field(s)''"
  have a: "\<exists>msg. missingFields r = Some (Err msg) \<and> msg = ?msg
           \<and> name \<in> set (missing_names r) \<and> sublist name msg"
    if mem: "name \<in> set (missing_names r)" for name
  proof -
    from mem have "missing_names r \<noteq> []" by auto
    then have "missingFields r = Some (Err ?msg)"
      by (simp add: missingFields_def)
    moreover have "sublist name ?msg"
      using sublist_strings_Join [OF mem, of "'', ''"] by (rule sublist_between)
    ultimately show ?thesis using mem by blast
  qed
  have 1: "req_Type r = [] \<Longrightarrow> ''transferType'' \<in> set (missing_names r)"
    and 2: "req_Originator r = [] \<Longrightarrow> ''originator'' \<in> set (missing_names r)"
    and 3: "req_OriginatorDepository r = [] \<Longrightarrow> ''originatorDepository'' \<in> set (missing_names r)"
    and 4: "req_Receiver r = [] \<Longrightarrow> ''receiver'' \<in> set (missing_names r)"
    and 5: "req_ReceiverDepository r = [] \<Longrightarrow> ''receiverDepository'' \<in> set (missing_names r)"
    and 6: "req_StandardEntryClassCode r = [] \<Longrightarrow> ''standardEntryClassCode'' \<in> set (missing_names r)"
    unfolding set_missing_names by simp_all
  have b: "missingFields r = None \<longleftrightarrow>
        req_Type r \<noteq> [] \<and> req_Originator r \<noteq> [] \<and> req_OriginatorDepository r \<noteq> []
        \<and> req_Receiver r \<noteq> [] \<and> req_ReceiverDepository r \<noteq> []
        \<and> req_StandardEntryClassCode r \<noteq> []"
    using missing_names_Nil [of r] by (simp add: missingFields_def)
  show ?thesis
    using a [OF 1] a [OF 2] a [OF 3] a [OF 4] a [OF 5] a [OF 6] b by simp
qed

theorem missingFields_names_every_missing_field_witness:
  "req_Originator (request_example\<lparr>req_Originator := [], req_Receiver := []\<rparr>) = []
   \<and> missingFields (request_example\<lparr>req_Originator := [], req_Receiver := []\<rparr>)
       = Some (Err ''missing originator, receiver JSON field(s)'')
   \<and> ''originator'' \<in> set (missing_names (request_example\<lparr>req_Originator := [], req_Receiver := []\<rparr>))
   \<and> sublist ''originator'' ''missing originator, receiver JSON field(s)''"
proof -
  let ?r = "request_example\<lparr>req_Originator := [], req_Receiver := []\<rparr>"
  have names: "missing_names ?r = [''originator'', ''receiver'']"
    by (simp add: missing_names_def check_def request_example_def)
  have empty: "req_Originator ?r = []" by simp
  from missingFields_names_every_missing_field [of ?r] empty
  have "\<exists>msg. missingFields ?r = Some (Err msg)
           \<and> msg = ''missing '' @ strings_Join (missing_names ?r) '', '' @ '' JSON field(s)''
           \<and> ''originator'' \<in> set (missing_names ?r) \<and> sublist ''originator'' msg"
    by simp
  then show ?thesis using empty by (simp add: names)
qed

section \<open>Properties of getTransferObjects\<close>

lemma getTransferObjects_cases:
  "(\<exists>e tr'. getTransferObjects env i req userID tr = ((None, None, None, None, Some e), tr'))
   \<or> (\<exists>rc rd og od tr'.
        getTransferObjects env i req userID tr = ((Some rc, Some rd, Some og, Some od, None), tr')
        \<and> dep_Status rd = DepositoryVerified \<and> dep_Status od = DepositoryVerified
        \<and> Receiver_Validate env rc = None \<and> Originator_Validate env og = None
        \<and> Depository_Validate env rd = None \<and> Depository_Validate env od = None)"
  by (simp add: getTransferObjects_def Let_def split: sum.split option.split)



section \<open>The order of the calls of createUserTransfers\<close>

lemma getTransferObjects_trace:
  "\<exists>seg. snd (getTransferObjects env i req userID tr) = tr @ seg
     \<and> (\<forall>e\<in>set seg. fst e = i \<and> stage (snd e) = 0)"
  by (simp add: getTransferObjects_def Let_def split: sum.split option.split)

lemma ordered_from_append:
  "ordered_from env pre k (xs @ ys) \<longleftrightarrow>
     ordered_from env pre k xs
     \<and> ordered_from env (pre @ xs) (if xs = [] then k else (fst (last xs), stage (snd (last xs)))) ys"
  by (induction xs arbitrary: pre k) auto

lemma ordered_from_mono: "ordered_from env pre k es \<Longrightarrow> k' \<le> k \<Longrightarrow> ordered_from env pre k' es"
  by (cases es) auto

lemma ordered_from_lookups:
  "\<forall>e\<in>set seg. fst e = i \<and> stage (snd e) = 0 \<Longrightarrow> k \<le> (i, 0) \<Longrightarrow> ordered_from env pre k seg"
  by (induction seg arbitrary: pre k) auto

lemma limit_passedI:
  "allowTransfer env p1 userID = None \<Longrightarrow> limit_passed env i (p1 @ (i, CallAllowTransfer userID) # p2)"
  unfolding limit_passed_def by blast


lemma processRequest_ok:
  assumes k: "k \<le> (i, 0)"
  shows "iteration_ok env rsp i tr k (processRequest env rsp key ip i request tr)"
proof (cases request)
  case None
  then show ?thesis by (simp add: processRequest_def iteration_ok_def)
next
  case (Some req0)
  show ?thesis
  proof (cases "missingFields req0")
    case (Some err)
    with \<open>request = Some req0\<close> show ?thesis by (simp add: processRequest_def iteration_ok_def)
  next
    case None
    define req where "req = req0\<lparr>req_remoteAddr := ip, req_userID := XUserID rsp\<rparr>"
    obtain objs tr1 where G: "getTransferObjects env i req (XUserID rsp) tr = (objs, tr1)"
      by (cases "getTransferObjects env i req (XUserID rsp) tr")
    from getTransferObjects_trace [of env i req "XUserID rsp" tr] G
    obtain seg0 where seg0: "tr1 = tr @ seg0" "\<forall>e\<in>set seg0. fst e = i \<and> stage (snd e) = 0"
      by auto
    have o0: "ordered_from env tr k seg0"
      using seg0(2) k by (rule ordered_from_lookups)
    have k1: "(if seg0 = [] then k else (fst (last seg0), stage (snd (last seg0)))) \<le> (i, 0)"
      using k seg0(2) by (cases "seg0 = []") (simp_all add: last_in_set)
    from getTransferObjects_cases [of env i req "XUserID rsp" tr] G
    consider (failed) e where "objs = (None, None, None, None, Some e)"
      | (found) rc rd og od where "objs = (Some rc, Some rd, Some og, Some od, None)"
      by auto
    then show ?thesis
    proof cases
      case failed
      then have "processRequest env rsp key ip i request tr
          = (Inl (Problem (Err (''missing data to create transfer: '' @ error_string e))), tr1)"
        using \<open>request = Some req0\<close> None G
        by (simp add: processRequest_def req_def [symmetric])
      then show ?thesis
        using seg0 o0 by (auto simp: iteration_ok_def)
    next
      case found
      have obj: "objects_found env i tr1"
        unfolding objects_found_def using G found by blast
      define P where "P out \<longleftrightarrow> iteration_ok env rsp i tr1 (i, 0) out" for out
      have "P (processRequest env rsp key ip i request tr)"
        using \<open>request = Some req0\<close> None G found
        apply (simp add: processRequest_def req_def [symmetric] Let_def
            split: option.split sum.split)
        apply (simp add: P_def iteration_ok_def obj limit_passedI)
        done
      then obtain seg1 where seg1:
          "snd (processRequest env rsp key ip i request tr) = tr1 @ seg1"
          "ordered_from env tr1 (i, 0) seg1" "\<forall>e\<in>set seg1. fst e = i \<and> stage (snd e) \<le> 8"
        and res: "(case fst (processRequest env rsp key ip i request tr) of
          Inl resp \<Rightarrow> resp = Panic \<or> (\<exists>e. resp = Problem e)
        | Inr req' \<Rightarrow>
            (\<exists>e\<in>set seg1. stage (snd e) = 6)
            \<and> (i, CallWriteTransferEvent (XUserID rsp) req') \<in> set seg1)"
        unfolding P_def iteration_ok_def by blast
      have res': "(case fst (processRequest env rsp key ip i request tr) of
          Inl resp \<Rightarrow> resp = Panic \<or> (\<exists>e. resp = Problem e)
        | Inr req' \<Rightarrow>
            (\<exists>e\<in>set (seg0 @ seg1). stage (snd e) = 6)
            \<and> (i, CallWriteTransferEvent (XUserID rsp) req') \<in> set (seg0 @ seg1))"
        using res by (auto split: sum.splits)
      have "ordered_from env (tr @ seg0) (if seg0 = [] then k else (fst (last seg0), stage (snd (last seg0)))) seg1"
        using seg1(2) k1 seg0(1) by (auto intro: ordered_from_mono)
      then have "ordered_from env tr k (seg0 @ seg1)"
        using o0 by (simp add: ordered_from_append)
      moreover have "snd (processRequest env rsp key ip i request tr) = tr @ (seg0 @ seg1)"
        using seg1(1) seg0(1) by simp
      moreover have "\<forall>e\<in>set (seg0 @ seg1). fst e = i \<and> stage (snd e) \<le> 8"
        using seg0(2) seg1(3) by auto
      ultimately show ?thesis
        using res' unfolding iteration_ok_def by blast
    qed
  qed
qed


lemma processRequests_ok:
  "k \<le> (i, 0) \<Longrightarrow>
     loop_ok env i (length requests) tr k (processRequests env rsp key ip i requests tr)"
proof (induction requests arbitrary: i tr k)
  case Nil
  then show ?case by (simp add: loop_ok_def)
next
  case (Cons request rest)
  obtain r1 t1 where out1: "processRequest env rsp key ip i request tr = (r1, t1)"
    by (cases "processRequest env rsp key ip i request tr")
  from processRequest_ok [OF Cons.prems, of env rsp tr key ip request] out1
  obtain seg1 where seg1: "t1 = tr @ seg1" "ordered_from env tr k seg1"
      "\<forall>e\<in>set seg1. fst e = i \<and> stage (snd e) \<le> 8"
    and r1: "case r1 of Inl resp \<Rightarrow> resp = Panic \<or> (\<exists>e. resp = Problem e)
        | Inr req' \<Rightarrow> (\<exists>e\<in>set seg1. stage (snd e) = 6)
            \<and> (i, CallWriteTransferEvent (XUserID rsp) req') \<in> set seg1"
    unfolding iteration_ok_def by auto
  show ?case
  proof (cases r1)
    case (Inl resp)
    then have "processRequests env rsp key ip i (request # rest) tr = (Inl resp, t1)"
      using out1 by simp
    then show ?thesis
      using seg1 r1 Inl by (auto simp: loop_ok_def)
  next
    case (Inr req')
    define k1 where "k1 = (if seg1 = [] then k else (fst (last seg1), stage (snd (last seg1))))"
    have k1: "k1 \<le> (Suc i, 0)"
      using Cons.prems seg1(3) unfolding k1_def
      by (cases "seg1 = []") (auto simp: last_in_set less_eq_prod_def)
    obtain r2 t2 where out2: "processRequests env rsp key ip (Suc i) rest t1 = (r2, t2)"
      by (cases "processRequests env rsp key ip (Suc i) rest t1")
    from Cons.IH [OF k1, of t1] out2
    obtain seg2 where seg2: "t2 = t1 @ seg2" "ordered_from env t1 k1 seg2"
        "\<forall>e\<in>set seg2. Suc i \<le> fst e \<and> fst e < Suc i + length rest \<and> stage (snd e) \<le> 8"
      and r2: "case r2 of Inl resp \<Rightarrow> resp = Panic \<or> (\<exists>e. resp = Problem e)
        | Inr reqs' \<Rightarrow> length reqs' = length rest
            \<and> (\<forall>j<length rest. \<exists>e\<in>set seg2. fst e = Suc i + j \<and> stage (snd e) = 6)"
      unfolding loop_ok_def by auto
    have out: "processRequests env rsp key ip i (request # rest) tr
        = (case r2 of Inl resp \<Rightarrow> Inl resp | Inr reqs' \<Rightarrow> Inr (req' # reqs'), t2)"
      using out1 out2 Inr by (simp split: sum.split)
    have tr: "t2 = tr @ (seg1 @ seg2)"
      using seg1(1) seg2(1) by simp
    have ord: "ordered_from env tr k (seg1 @ seg2)"
      using seg1(1,2) seg2(2) by (simp add: ordered_from_append k1_def)
    have tags: "\<forall>e\<in>set (seg1 @ seg2). i \<le> fst e \<and> fst e < i + length (request # rest) \<and> stage (snd e) \<le> 8"
      using seg1(3) seg2(3) by auto
    have up1: "\<exists>e\<in>set (seg1 @ seg2). fst e = i + 0 \<and> stage (snd e) = 6"
      using r1 Inr seg1(3) by auto
    have res: "case r2 of Inl resp \<Rightarrow> resp = Panic \<or> (\<exists>e. resp = Problem e)
        | Inr reqs' \<Rightarrow> length (req' # reqs') = length (request # rest)
            \<and> (\<forall>j<length (request # rest). \<exists>e\<in>set (seg1 @ seg2). fst e = i + j \<and> stage (snd e) = 6)"
    proof (cases r2)
      case (Inl resp)
      then show ?thesis using r2 by simp
    next
      case (Inr reqs')
      have "\<exists>e\<in>set (seg1 @ seg2). fst e = i + j \<and> stage (snd e) = 6"
        if "j < length (request # rest)" for j
      proof (cases j)
        case 0
        then show ?thesis using up1 by simp
      next
        case (Suc j')
        then have "j' < length rest" using that by simp
        with r2 Inr obtain e where "e \<in> set seg2" "fst e = Suc i + j'" "stage (snd e) = 6"
          by auto
        then show ?thesis using Suc by auto
      qed
      then show ?thesis using r2 Inr by simp
    qed
    show ?thesis
      unfolding loop_ok_def out
      using tr ord tags res by (auto split: sum.splits)
  qed
qed

lemma ordered_from_sound:
  "ordered_from env pre k es \<Longrightarrow>
     sorted (map (\<lambda>e. (fst e, stage (snd e))) es)
     \<and> (\<forall>e\<in>set es. k \<le> (fst e, stage (snd e)))
     \<and> (\<forall>a i c b. es = a @ (i, c) # b \<and> stage c = 1 \<longrightarrow> objects_found env i (pre @ a))
     \<and> (\<forall>a i c b. es = a @ (i, c) # b \<and> 2 \<le> stage c \<and> stage c \<le> 8
           \<longrightarrow> limit_passed env i (pre @ a))"
proof (induction es arbitrary: pre k)
  case Nil
  then show ?case by simp
next
  case (Cons e es)
  from Cons.prems have here: "k \<le> (fst e, stage (snd e))"
      "stage (snd e) = 1 \<longrightarrow> objects_found env (fst e) pre"
      "2 \<le> stage (snd e) \<and> stage (snd e) \<le> 8 \<longrightarrow> limit_passed env (fst e) pre"
    and rest: "ordered_from env (pre @ [e]) (fst e, stage (snd e)) es"
    by simp_all
  from Cons.IH [OF rest] have ih:
      "sorted (map (\<lambda>e. (fst e, stage (snd e))) es)"
      "\<forall>x\<in>set es. (fst e, stage (snd e)) \<le> (fst x, stage (snd x))"
      "\<forall>a i c b. es = a @ (i, c) # b \<and> stage c = 1 \<longrightarrow> objects_found env i ((pre @ [e]) @ a)"
      "\<forall>a i c b. es = a @ (i, c) # b \<and> 2 \<le> stage c \<and> stage c \<le> 8
           \<longrightarrow> limit_passed env i ((pre @ [e]) @ a)"
    by blast+
  have 1: "sorted (map (\<lambda>e. (fst e, stage (snd e))) (e # es))"
    using ih(1,2) by simp
  have 2: "\<forall>x\<in>set (e # es). k \<le> (fst x, stage (snd x))"
  proof
    fix x assume "x \<in> set (e # es)"
    then consider "x = e" | "x \<in> set es" by auto
    then show "k \<le> (fst x, stage (snd x))"
    proof cases
      case 1
      then show ?thesis using here(1) by simp
    next
      case 2
      then have "(fst e, stage (snd e)) \<le> (fst x, stage (snd x))" using ih(2) by blast
      with here(1) show ?thesis by (rule order_trans)
    qed
  qed
  have 3: "objects_found env i (pre @ a)" if "e # es = a @ (i, c) # b" "stage c = 1" for a i c b
  proof (cases a)
    case Nil
    with that here(2) show ?thesis by auto
  next
    case (Cons x a')
    with that have "es = a' @ (i, c) # b" "x = e" by auto
    with ih(3) that(2) Cons show ?thesis by auto
  qed
  have 4: "limit_passed env i (pre @ a)"
    if "e # es = a @ (i, c) # b" "2 \<le> stage c" "stage c \<le> 8" for a i c b
  proof (cases a)
    case Nil
    with that here(3) show ?thesis by auto
  next
    case (Cons x a')
    with that have "es = a' @ (i, c) # b" "x = e" by auto
    with ih(4) that(2,3) Cons show ?thesis by auto
  qed
  from 1 2 3 4 show ?case by blast
qed

lemma asTransfer_Pending: "xfer_Status (asTransfer req transferID now) = TransferPending"
  by (simp add: asTransfer_def Let_def)

text \<open>What the handler does once the requests are read.\<close>

lemma createUserTransfers_run:
  assumes read: "readTransferRequests (http_body r) = Inr requests"
    and run: "createUserTransfers env (Some rsp) r = (resp, tr)"
  obtains (stopped) seg failure where
      "processRequests env rsp (if idempotency_header r = [] then base_ID_key env else idempotency_header r)
         (remote_addr r) 0 requests [] = (Inl failure, seg)"
      "resp = failure" "tr = seg" "failure = Panic \<or> (\<exists>e. failure = Problem e)"
      "ordered_from env [] (0, 0) seg"
      "\<forall>e\<in>set seg. fst e < length requests \<and> stage (snd e) \<le> 8"
    | (persisted) seg requests' where
      "processRequests env rsp (if idempotency_header r = [] then base_ID_key env else idempotency_header r)
         (remote_addr r) 0 requests [] = (Inr requests', seg)"
      "tr = seg @ [(length requests, CallRepoCreateUserTransfers (XUserID rsp) requests')]"
      "resp = (case repo_createUserTransfers env seg (XUserID rsp) requests' of
                 Inl err \<Rightarrow> Problem err
               | Inr transfers \<Rightarrow> writeResponse (length requests) transfers)"
      "ordered_from env [] (0, 0) seg"
      "\<forall>e\<in>set seg. fst e < length requests \<and> stage (snd e) \<le> 8"
      "\<forall>j<length requests. \<exists>e\<in>set seg. fst e = j \<and> stage (snd e) = 6"
proof -
  let ?key = "if idempotency_header r = [] then base_ID_key env else idempotency_header r"
  obtain res seg where loop: "processRequests env rsp ?key (remote_addr r) 0 requests [] = (res, seg)"
    by (cases "processRequests env rsp ?key (remote_addr r) 0 requests []")
  have "loop_ok env 0 (length requests) [] (0, 0) (res, seg)"
    using processRequests_ok [of "(0, 0)" 0 env requests "[]" rsp ?key "remote_addr r"] loop by simp
  then have ord: "ordered_from env [] (0, 0) seg"
    and tags: "\<forall>e\<in>set seg. fst e < length requests \<and> stage (snd e) \<le> 8"
    and res: "case res of
              Inl resp \<Rightarrow> resp = Panic \<or> (\<exists>e. resp = Problem e)
            | Inr reqs' \<Rightarrow>
                length reqs' = length requests
                \<and> (\<forall>j<length requests. \<exists>e\<in>set seg. fst e = 0 + j \<and> stage (snd e) = 6)"
    unfolding loop_ok_def by auto
  show thesis
  proof (cases res)
    case (Inl failure)
    have "createUserTransfers env (Some rsp) r = (failure, seg)"
      using read loop Inl by (simp add: createUserTransfers_def)
    with run have "resp = failure" "tr = seg" by simp_all
    then show thesis
      using stopped [of failure seg] loop Inl res ord tags by simp
  next
    case (Inr requests')
    have "createUserTransfers env (Some rsp) r =
        ((case repo_createUserTransfers env seg (XUserID rsp) requests' of
                 Inl err \<Rightarrow> Problem err
               | Inr transfers \<Rightarrow> writeResponse (length requests) transfers),
         seg @ [(length requests, CallRepoCreateUserTransfers (XUserID rsp) requests')])"
      using read loop Inr by (simp add: createUserTransfers_def Let_def split: sum.split)
    with run have "tr = seg @ [(length requests, CallRepoCreateUserTransfers (XUserID rsp) requests')]"
      "resp = (case repo_createUserTransfers env seg (XUserID rsp) requests' of
                 Inl err \<Rightarrow> Problem err
               | Inr transfers \<Rightarrow> writeResponse (length requests) transfers)"
      by simp_all
    then show thesis
      using persisted [of requests' seg] loop Inr res ord tags by simp
  qed
qed

lemma ordered_from_persist:
  assumes "ordered_from env [] (0, 0) seg" "\<forall>e\<in>set seg. fst e < n \<and> stage (snd e) \<le> 8"
  shows "ordered_from env [] (0, 0) (seg @ [(n, CallRepoCreateUserTransfers userID requests')])"
proof -
  have "(if seg = [] then (0, 0) else (fst (last seg), stage (snd (last seg)))) \<le> (n, 9)"
    using assms(2) by (cases "seg = []") (auto simp: less_eq_prod_def dest!: last_in_set)
  then show ?thesis
    using assms(1) by (simp add: ordered_from_append)
qed

text \<open>
  Claim C1, as the code has it. A handler whose responder is nil makes no call. Otherwise
  the calls of \<^verbatim>\<open>createUserTransfers\<close> come iteration by iteration and, within an
  iteration, in the order: entity lookups, limit check, ledger post, customer status check,
  disclaimer check, file construction, file upload, file check, audit event. The limit
  check of an iteration is made on the trace that \<^verbatim>\<open>getTransferObjects\<close> returned with
  the four entities, so it comes after the entity validation, not before it. Every later
  stage of an iteration comes after that iteration's limit check has passed. The
  persistence of the transfers is one call after the loop, the last of the trace; a
  response with status OK is written only after it, when every request has uploaded its
  file. The transfer built from a request has status \<^verbatim>\<open>Pending\<close>.
\<close>

theorem createUserTransfers_pipeline_order:
  assumes run: "createUserTransfers env responder r = (resp, tr)"
  shows "(responder = None \<longrightarrow> resp = NilResponder \<and> tr = [])
    \<and> sorted (map (\<lambda>e. (fst e, stage (snd e))) tr)
    \<and> (\<forall>pre i c post. tr = pre @ (i, c) # post \<and> stage c = 1 \<longrightarrow> objects_found env i pre)
    \<and> (\<forall>pre i c post. tr = pre @ (i, c) # post \<and> 2 \<le> stage c \<and> stage c \<le> 8
          \<longrightarrow> limit_passed env i pre)
    \<and> (\<forall>e\<in>set (butlast tr). stage (snd e) \<le> 8)
    \<and> (\<forall>e\<in>set tr. stage (snd e) \<le> 9)
    \<and> ((\<exists>t. resp = OKObject t) \<or> (\<exists>ts. resp = OKArray ts) \<longrightarrow>
          tr \<noteq> [] \<and> stage (snd (last tr)) = 9
          \<and> (\<forall>j<fst (last tr). \<exists>e\<in>set tr. fst e = j \<and> stage (snd e) = 6))
    \<and> xfer_Status (asTransfer req transferID now) = TransferPending"
proof -
  have nil: "responder = None \<longrightarrow> resp = NilResponder \<and> tr = []"
    using run by (auto simp: createUserTransfers_def)
  have main: "ordered_from env [] (0, 0) tr
    \<and> (\<forall>e\<in>set (butlast tr). stage (snd e) \<le> 8)
    \<and> (\<forall>e\<in>set tr. stage (snd e) \<le> 9)
    \<and> ((\<exists>t. resp = OKObject t) \<or> (\<exists>ts. resp = OKArray ts) \<longrightarrow>
          tr \<noteq> [] \<and> stage (snd (last tr)) = 9
          \<and> (\<forall>j<fst (last tr). \<exists>e\<in>set tr. fst e = j \<and> stage (snd e) = 6))"
  proof (cases responder)
    case None
    with nil show ?thesis by simp
  next
    case (Some rsp)
    show ?thesis
    proof (cases "readTransferRequests (http_body r)")
      case (Inl err)
      with run Some have "resp = Problem err" "tr = []"
        by (simp_all add: createUserTransfers_def)
      then show ?thesis by simp
    next
      case (Inr requests)
      from Inr run [unfolded Some] show ?thesis
      proof (cases rule: createUserTransfers_run)
        case (stopped seg failure)
        have "\<forall>e\<in>set (butlast seg). stage (snd e) \<le> 8"
          using stopped(6) by (auto dest: in_set_butlastD)
        moreover have "\<forall>e\<in>set seg. stage (snd e) \<le> 9"
          using stopped(6) by auto
        ultimately show ?thesis
          using stopped by auto
      next
        case (persisted seg requests')
        have "ordered_from env [] (0, 0) tr"
          unfolding persisted(2) using persisted(4,5) by (rule ordered_from_persist)
        moreover have "\<forall>e\<in>set (butlast tr). stage (snd e) \<le> 8"
          unfolding persisted(2) using persisted(5) by simp
        moreover have "\<forall>e\<in>set tr. stage (snd e) \<le> 9"
          unfolding persisted(2) using persisted(5) by auto
        moreover have "tr \<noteq> [] \<and> stage (snd (last tr)) = 9
          \<and> (\<forall>j<fst (last tr). \<exists>e\<in>set tr. fst e = j \<and> stage (snd e) = 6)"
          unfolding persisted(2) using persisted(6) by auto
        ultimately show ?thesis by blast
      qed
    qed
  qed
  from main have ord: "ordered_from env [] (0, 0) tr" by blast
  from ordered_from_sound [OF ord] main nil asTransfer_Pending [of req transferID now]
  show ?thesis by simp
qed



section \<open>Runs on the example inputs\<close>

lemma env_example_simps:
  "GetUserReceiver env_example tr rid uid = Inr \<lparr>receiver_ID = rid\<rparr>"
  "Receiver_Validate env_example rc = None"
  "GetUserDepository env_example tr did uid = Inr \<lparr>dep_ID = did, dep_Status = DepositoryVerified\<rparr>"
  "Depository_Validate env_example d = None"
  "GetUserOriginator env_example tr oid uid = Inr \<lparr>originator_ID = oid\<rparr>"
  "Originator_Validate env_example og = None"
  "allowTransfer env_example tr uid = None"
  "accountsClient env_example"
  "postAccountTransaction env_example tr uid od rd a ty rid = Inr ''tx-1''"
  "customersClient env_example"
  "verifyCustomerStatuses env_example tr oo ro rid uid = None"
  "verifyDisclaimersAreAccepted env_example tr oo ro rid uid = None"
  "ConstructFile env_example tid key t ro rdo oo odo = Inr ''ach-file''"
  "CreateFile env_example tr key f = Inr ''file-1''"
  "CheckFile env_example tr fid uid = None"
  "writeTransferEvent env_example tr uid req = None"
  "repo_createUserTransfers env_example tr uid reqs = Inr (map (\<lambda>req. asTransfer req ''stored'' 0) reqs)"
  "repo_getUserTransfer env_example tr tid uid = Inr (asTransfer request_example tid 0)"
  "repo_deleteUserTransfer env_example tr tid uid = None"
  "GetFileIDForTransfer env_example tr tid uid = (''file-1'', None)"
  "DeleteFile env_example tr fid = Some (Err ''500 Internal Server Error'')"
  "base_ID_key env_example = ''generated-key''"
  "base_ID_transfer env_example i = ''transfer-1''"
  "base_Now env_example = 0"
  by (simp_all add: env_example_def)

lemma env_limit_example_simps:
  "GetUserReceiver env_limit_example tr rid uid = Inr \<lparr>receiver_ID = rid\<rparr>"
  "Receiver_Validate env_limit_example rc = None"
  "GetUserDepository env_limit_example tr did uid = Inr \<lparr>dep_ID = did, dep_Status = DepositoryVerified\<rparr>"
  "Depository_Validate env_limit_example d = None"
  "GetUserOriginator env_limit_example tr oid uid = Inr \<lparr>originator_ID = oid\<rparr>"
  "Originator_Validate env_limit_example og = None"
  "allowTransfer env_limit_example tr uid
     = (if (0, CallAllowTransfer uid) \<in> set tr then Some (Err ''over the limit'') else None)"
  "accountsClient env_limit_example"
  "postAccountTransaction env_limit_example tr uid od rd a ty rid = Inr ''tx-1''"
  "customersClient env_limit_example"
  "verifyCustomerStatuses env_limit_example tr oo ro rid uid = None"
  "verifyDisclaimersAreAccepted env_limit_example tr oo ro rid uid = None"
  "ConstructFile env_limit_example tid key t ro rdo oo odo = Inr ''ach-file''"
  "CreateFile env_limit_example tr key f = Inr ''file-1''"
  "CheckFile env_limit_example tr fid uid = None"
  "writeTransferEvent env_limit_example tr uid req = None"
  "base_ID_transfer env_limit_example i = ''transfer-1''"
  "base_Now env_limit_example = 0"
  by (simp_all add: env_limit_example_def env_example_def)

lemma request_example_simps:
  "missingFields request_example = None"
  "req_Receiver (request_example\<lparr>req_remoteAddr := a, req_userID := u\<rparr>) = ''recv-1''"
  "req_ReceiverDepository (request_example\<lparr>req_remoteAddr := a, req_userID := u\<rparr>) = ''dep-recv''"
  "req_Originator (request_example\<lparr>req_remoteAddr := a, req_userID := u\<rparr>) = ''orig-1''"
  "req_OriginatorDepository (request_example\<lparr>req_remoteAddr := a, req_userID := u\<rparr>) = ''dep-orig''"
  "req_Amount (request_example\<lparr>req_remoteAddr := a, req_userID := u\<rparr>)
     = \<lparr>amount_symbol = ''USD'', amount_number = 1250\<rparr>"
  "req_Type (request_example\<lparr>req_remoteAddr := a, req_userID := u\<rparr>) = ''push''"
  by (simp_all add: request_example_def missingFields_def missing_names_def check_def)

lemma getTransferObjects_example:
  "getTransferObjects env_example i (request_example\<lparr>req_remoteAddr := a, req_userID := u\<rparr>) ''user-1'' tr
     = ((Some \<lparr>receiver_ID = ''recv-1''\<rparr>,
         Some \<lparr>dep_ID = ''dep-recv'', dep_Status = DepositoryVerified\<rparr>,
         Some \<lparr>originator_ID = ''orig-1''\<rparr>,
         Some \<lparr>dep_ID = ''dep-orig'', dep_Status = DepositoryVerified\<rparr>, None),
        tr @ lookups_example i)"
  by (simp add: getTransferObjects_def env_example_simps request_example_simps lookups_example_def)

lemma getTransferObjects_limit_example:
  "getTransferObjects env_limit_example i (request_example\<lparr>req_remoteAddr := a, req_userID := u\<rparr>) ''user-1'' tr
     = ((Some \<lparr>receiver_ID = ''recv-1''\<rparr>,
         Some \<lparr>dep_ID = ''dep-recv'', dep_Status = DepositoryVerified\<rparr>,
         Some \<lparr>originator_ID = ''orig-1''\<rparr>,
         Some \<lparr>dep_ID = ''dep-orig'', dep_Status = DepositoryVerified\<rparr>, None),
        tr @ lookups_example i)"
  by (simp add: getTransferObjects_def env_limit_example_simps request_example_simps lookups_example_def)

lemma processRequest_example:
  "processRequest env_example responder_example ''key-1'' ''10.0.0.1'' i (Some request_example) tr
     = (Inr processed_example, tr @ calls_example i)"
  by (simp add: processRequest_def responder_example_def getTransferObjects_example
      env_example_simps request_example_simps calls_example_def effects_example_def
      processed_example_def Let_def)


lemma processRequest_limit_example_first:
  "processRequest env_limit_example responder_example ''key-1'' ''10.0.0.1'' 0 (Some request_example) []
     = (Inr processed_example, calls_example 0)"
  by (simp add: processRequest_def responder_example_def getTransferObjects_limit_example
      env_limit_example_simps request_example_simps calls_example_def effects_example_def
      processed_example_def Let_def lookups_example_def)

lemma processRequest_limit_example_second:
  "processRequest env_limit_example responder_example ''key-1'' ''10.0.0.1'' (Suc 0) (Some request_example)
       (calls_example 0)
     = (Inl (Problem (Err ''over the limit'')),
        calls_example 0 @ lookups_example (Suc 0) @ [(Suc 0, CallAllowTransfer ''user-1'')])"
  by (simp add: processRequest_def responder_example_def getTransferObjects_limit_example
      env_limit_example_simps request_example_simps calls_example_def Let_def)

lemma http_example_simps:
  "http_body (http_example b) = b" "idempotency_header (http_example b) = ''key-1''"
  "remote_addr (http_example b) = ''10.0.0.1''"
  "getTransferID (http_example b) = ''transfer-1''"
  by (simp_all add: http_example_def getTransferID_def)

lemma createUserTransfers_example_object:
  "createUserTransfers env_example (Some responder_example) (http_example (JSONObject request_example))
     = (OKObject (asTransfer processed_example ''stored'' 0),
        calls_example 0 @ [(1, CallRepoCreateUserTransfers ''user-1'' [processed_example])])"
  by (simp add: createUserTransfers_def readTransferRequests_def request_example_simps
      http_example_simps processRequest_example env_example_simps writeResponse_def
      responder_example_def [symmetric])
     (simp add: responder_example_def)

lemma createUserTransfers_example_array:
  "createUserTransfers env_example (Some responder_example)
       (http_example (JSONArray [Some request_example]))
     = (OKObject (asTransfer processed_example ''stored'' 0),
        calls_example 0 @ [(1, CallRepoCreateUserTransfers ''user-1'' [processed_example])])"
  by (simp add: createUserTransfers_def readTransferRequests_def
      http_example_simps processRequest_example env_example_simps writeResponse_def
      responder_example_def [symmetric])
     (simp add: responder_example_def)

lemma createUserTransfers_limit_example:
  "createUserTransfers env_limit_example (Some responder_example)
       (http_example (JSONArray [Some request_example, Some request_example]))
     = (Problem (Err ''over the limit''),
        calls_example 0 @ lookups_example 1 @ [(1, CallAllowTransfer ''user-1'')])"
  by (simp add: createUserTransfers_def readTransferRequests_def
      http_example_simps processRequest_limit_example_first processRequest_limit_example_second)



section \<open>The shape of the response\<close>

lemma readTransferRequests_Inr:
  assumes "readTransferRequests b = Inr requests"
  shows "(\<exists>req. b = JSONObject req \<and> requests = [Some req])
       \<or> (b = JSONArray requests \<and> requests \<noteq> [])"
  using assms by (cases b) (auto simp: readTransferRequests_def split: option.splits if_splits)

lemma writeResponse_shape:
  "(writeResponse n ts = OKObject t \<longrightarrow> n = 1)
   \<and> (writeResponse n ts = OKArray ts' \<longrightarrow> n \<noteq> 1)
   \<and> writeResponse n ts \<noteq> StatusOK"
  by (simp add: writeResponse_def split: list.split)

lemma processRequests_nil_pointer:
  "processRequests env rsp key ip i [None] tr = (Inl Panic, tr)"
  by (simp add: processRequest_def)

text \<open>
  What decides the shape of the response is the number of requests read, not the shape of
  the body: a single object is rendered only for a body that is one object or an array of
  one object, and an array only for a body that is an array of two or more.
\<close>

theorem createUserTransfers_response_shape:
  assumes run: "createUserTransfers env responder r = (resp, tr)"
  shows "(\<forall>t. resp = OKObject t \<longrightarrow>
            (\<exists>req. http_body r = JSONObject req \<or> http_body r = JSONArray [Some req]))
    \<and> (\<forall>ts. resp = OKArray ts \<longrightarrow>
            (\<exists>requests. http_body r = JSONArray requests \<and> 2 \<le> length requests))
    \<and> resp \<noteq> StatusOK"
proof (cases responder)
  case None
  with run have "resp = NilResponder" by (simp add: createUserTransfers_def)
  then show ?thesis by simp
next
  case (Some rsp)
  show ?thesis
  proof (cases "readTransferRequests (http_body r)")
    case (Inl err)
    with run Some have "resp = Problem err" by (simp add: createUserTransfers_def)
    then show ?thesis by simp
  next
    case (Inr requests)
    from Inr run [unfolded Some] show ?thesis
    proof (cases rule: createUserTransfers_run)
      case (stopped seg failure)
      then show ?thesis by auto
    next
      case (persisted seg requests')
      show ?thesis
      proof (cases "repo_createUserTransfers env seg (XUserID rsp) requests'")
        case (Inl err)
        with persisted(3) have "resp = Problem err" by simp
        then show ?thesis by simp
      next
        case (Inr transfers)
        with persisted(3) have resp: "resp = writeResponse (length requests) transfers" by simp
        note shape = writeResponse_shape [of "length requests" transfers]
        from readTransferRequests_Inr [OF \<open>readTransferRequests (http_body r) = Inr requests\<close>]
        consider (object) req where "http_body r = JSONObject req" "requests = [Some req]"
          | (array) "http_body r = JSONArray requests" "requests \<noteq> []"
          by blast
        then show ?thesis
        proof cases
          case object
          then show ?thesis using resp shape by auto
        next
          case array
          have one: "\<exists>req. requests = [Some req]" if "length requests = 1"
          proof -
            from that obtain x where x: "requests = [x]"
              by (cases requests) simp_all
            have "x \<noteq> None"
            proof
              assume "x = None"
              with x persisted(1) show False
                unfolding \<open>x = None\<close> x processRequests_nil_pointer by simp
            qed
            with x show ?thesis by auto
          qed
          have two: "2 \<le> length requests" if "length requests \<noteq> 1"
          proof -
            have "length requests \<noteq> 0" using array(2) by simp
            with that show ?thesis by arith
          qed
          show ?thesis
            using resp shape array(1) one two by auto
        qed
      qed
    qed
  qed
qed

section \<open>A failing request in a batch\<close>

lemma processRequests_append:
  "processRequests env rsp key ip i (xs @ ys) tr =
     (case processRequests env rsp key ip i xs tr of
        (Inl resp, t) \<Rightarrow> (Inl resp, t)
      | (Inr xs', t) \<Rightarrow>
          (case processRequests env rsp key ip (i + length xs) ys t of
             (Inl resp, t') \<Rightarrow> (Inl resp, t')
           | (Inr ys', t') \<Rightarrow> (Inr (xs' @ ys'), t')))"
proof (induction xs arbitrary: i tr)
  case Nil
  then show ?case by (simp split: prod.split sum.split)
next
  case (Cons x xs)
  show ?case
    by (simp add: Cons.IH split: prod.split sum.split)
qed

text \<open>
  Claim C5, as the code has it. When the requests before request \<open>i\<close> of a batch go
  through and request \<open>i\<close> fails, the handler answers with the failure of request \<open>i\<close>;
  the calls made for the earlier requests stay in the trace (their files are uploaded);
  no call is made for a later request; and no call of a stage past the audit event is
  made: the transfers are not persisted, for none of the requests, and nothing is undone.
\<close>

theorem createUserTransfers_stops_at_first_failure:
  assumes body: "http_body r = JSONArray requests"
    and i: "i < length requests"
    and earlier: "processRequests env rsp
        (if idempotency_header r = [] then base_ID_key env else idempotency_header r)
        (remote_addr r) 0 (take i requests) [] = (Inr processed, tr_i)"
    and fails: "processRequest env rsp
        (if idempotency_header r = [] then base_ID_key env else idempotency_header r)
        (remote_addr r) i (requests ! i) tr_i = (Inl failure, tr')"
  shows "createUserTransfers env (Some rsp) r = (failure, tr')
    \<and> prefix tr_i tr'
    \<and> (\<forall>j<i. \<exists>e\<in>set tr'. fst e = j \<and> stage (snd e) = 6)
    \<and> (\<forall>e\<in>set tr'. fst e \<le> i \<and> stage (snd e) \<le> 8)"
proof -
  let ?key = "if idempotency_header r = [] then base_ID_key env else idempotency_header r"
  have split: "requests = take i requests @ (requests ! i) # drop (Suc i) requests"
    using i by (rule id_take_nth_drop)
  have len: "length (take i requests) = i" using i by simp
  have "processRequests env rsp ?key (remote_addr r) 0 requests []
      = processRequests env rsp ?key (remote_addr r) 0
          (take i requests @ (requests ! i) # drop (Suc i) requests) []"
    using split by simp
  also have "\<dots> = (Inl failure, tr')"
    unfolding processRequests_append using earlier fails len by simp
  finally have loop: "processRequests env rsp ?key (remote_addr r) 0 requests [] = (Inl failure, tr')" .
  have read: "readTransferRequests (http_body r) = Inr requests"
    using body i by (auto simp: readTransferRequests_def)
  have 1: "createUserTransfers env (Some rsp) r = (failure, tr')"
    using read loop by (simp add: createUserTransfers_def)
  have "loop_ok env 0 (length (take i requests)) [] (0, 0) (Inr processed, tr_i)"
    using processRequests_ok [of "(0, 0)" 0 env "take i requests" "[]" rsp ?key "remote_addr r"] earlier
    by simp
  then have before: "\<forall>e\<in>set tr_i. fst e < i \<and> stage (snd e) \<le> 8"
    and uploads: "\<forall>j<i. \<exists>e\<in>set tr_i. fst e = j \<and> stage (snd e) = 6"
    unfolding loop_ok_def len by auto
  have "iteration_ok env rsp i tr_i (0, 0) (Inl failure, tr')"
    using processRequest_ok [of "(0, 0)" i env rsp tr_i ?key "remote_addr r" "requests ! i"] fails
    by simp
  then obtain seg where seg: "tr' = tr_i @ seg" "\<forall>e\<in>set seg. fst e = i \<and> stage (snd e) \<le> 8"
    unfolding iteration_ok_def by auto
  have 2: "prefix tr_i tr'" using seg(1) by simp
  have 3: "\<forall>j<i. \<exists>e\<in>set tr'. fst e = j \<and> stage (snd e) = 6"
    using uploads seg(1) by auto
  have 4: "\<forall>e\<in>set tr'. fst e \<le> i \<and> stage (snd e) \<le> 8"
    using before seg by auto
  from 1 2 3 4 show ?thesis by blast
qed


section \<open>More runs on the example inputs\<close>

lemma createUserTransfers_example_two:
  "createUserTransfers env_example (Some responder_example)
       (http_example (JSONArray [Some request_example, Some request_example]))
     = (OKArray [asTransfer processed_example ''stored'' 0, asTransfer processed_example ''stored'' 0],
        calls_example 0 @ calls_example (Suc 0)
          @ [(2, CallRepoCreateUserTransfers ''user-1'' [processed_example, processed_example])])"
  by (simp add: createUserTransfers_def readTransferRequests_def
      http_example_simps processRequest_example env_example_simps writeResponse_def
      responder_example_def [symmetric])
     (simp add: responder_example_def)

section \<open>deleteUserTransfer\<close>



section \<open>The idempotency recorder and the handlers\<close>

lemma set_SeenBefore: "set (snd (SeenBefore key rec)) = insert key (set rec)"
  by (auto simp: SeenBefore_def)

lemma SeenBefore_calls_nth:
  "n < length keys \<Longrightarrow>
     fst (SeenBefore_calls keys rec) ! n = (keys ! n \<in> set rec \<union> set (take n keys))"
proof (induction keys arbitrary: rec n)
  case Nil
  then show ?case by simp
next
  case (Cons key keys)
  obtain seen rec' where first: "SeenBefore key rec = (seen, rec')"
    by (cases "SeenBefore key rec")
  then have seen: "seen = (key \<in> set rec)" and rec': "set rec' = insert key (set rec)"
    using set_SeenBefore [of key rec] by (auto simp: SeenBefore_def)
  obtain bs rec'' where rest: "SeenBefore_calls keys rec' = (bs, rec'')"
    by (cases "SeenBefore_calls keys rec'")
  have all: "fst (SeenBefore_calls (key # keys) rec) = seen # bs"
    using first rest by simp
  show ?case
  proof (cases n)
    case 0
    then show ?thesis using all seen by simp
  next
    case (Suc m)
    then have "m < length keys" using Cons.prems by simp
    from Cons.IH [OF this, of rec'] rest
    have "bs ! m = (keys ! m \<in> set rec' \<union> set (take m keys))" by simp
    then show ?thesis using all Suc rec' by auto
  qed
qed

text \<open>
  Claim C6. A call of \<^verbatim>\<open>SeenBefore\<close> returns whether the key is recorded, and records it.
  In a sequence of calls on a fresh recorder a call returns true exactly when an earlier
  call had the same key: the first call for a key returns false, every later one true. A
  request whose key is recorded gets a nil responder and status 412, and the handlers then
  make no call at all: no limit check, no ledger post, no file upload.
\<close>

theorem SeenBefore_first_false_then_true:
  "fst (SeenBefore key rec) = (key \<in> set rec)
   \<and> set (snd (SeenBefore key rec)) = insert key (set rec)
   \<and> (\<forall>n<length keys. fst (SeenBefore_calls keys []) ! n = (\<exists>m<n. keys ! m = keys ! n))
   \<and> (idempotency_header r \<noteq> [] \<and> idempotency_header r \<in> set rec \<longrightarrow>
        fst (NewResponder rec userID requestID r) = (None, Some 412)
        \<and> createUserTransfers env (fst (fst (NewResponder rec userID requestID r))) r
            = (NilResponder, [])
        \<and> deleteUserTransfer env (fst (fst (NewResponder rec userID requestID r))) r
            = (NilResponder, []))"
proof -
  have 1: "fst (SeenBefore key rec) = (key \<in> set rec)"
    by (simp add: SeenBefore_def)
  have 3: "fst (SeenBefore_calls keys []) ! n = (\<exists>m<n. keys ! m = keys ! n)"
    if "n < length keys" for n
  proof -
    have "keys ! n \<in> set (take n keys) \<longleftrightarrow> (\<exists>m<n. keys ! m = keys ! n)"
      using that by (auto simp: in_set_conv_nth)
    then show ?thesis
      using SeenBefore_calls_nth [OF that, of "[]"] by simp
  qed
  have 4: "fst (NewResponder rec userID requestID r) = (None, Some 412)"
    if "idempotency_header r \<noteq> []" "idempotency_header r \<in> set rec"
    using that by (simp add: NewResponder_def SeenBefore_def)
  from 1 set_SeenBefore [of key rec] 3 4 show ?thesis
    by (simp add: createUserTransfers_def deleteUserTransfer_def)
qed


section \<open>The claims on the example inputs\<close>

text \<open>
  Claim C1 as stated puts the limit check before the resolution of any entity. On the
  example the first four calls are the entity lookups and the limit check is the fifth.
\<close>

theorem createUserTransfers_limit_check_after_lookups:
  "take 5 (snd (createUserTransfers env_example (Some responder_example)
                  (http_example (JSONObject request_example))))
     = [(0, CallGetUserReceiver ''recv-1'' ''user-1''),
        (0, CallGetUserDepository ''dep-recv'' ''user-1''),
        (0, CallGetUserOriginator ''orig-1'' ''user-1''),
        (0, CallGetUserDepository ''dep-orig'' ''user-1''),
        (0, CallAllowTransfer ''user-1'')]"
  by (simp add: createUserTransfers_example_object calls_example_def lookups_example_def)

theorem createUserTransfers_pipeline_order_witness:
  "createUserTransfers env_example (Some responder_example) (http_example (JSONObject request_example))
     = (OKObject (asTransfer processed_example ''stored'' 0),
        calls_example 0 @ [(1, CallRepoCreateUserTransfers ''user-1'' [processed_example])])
   \<and> createUserTransfers env_example None (http_example (JSONObject request_example))
     = (NilResponder, [])
   \<and> sorted (map (\<lambda>e. (fst e, stage (snd e)))
        (calls_example 0 @ [(1, CallRepoCreateUserTransfers ''user-1'' [processed_example])]))
   \<and> objects_found env_example 0 (lookups_example 0)
   \<and> limit_passed env_example 0 (lookups_example 0 @ [(0, CallAllowTransfer ''user-1'')])
   \<and> stage (snd (last (calls_example 0
        @ [(1, CallRepoCreateUserTransfers ''user-1'' [processed_example])]))) = 9"
proof -
  let ?persist = "(1, CallRepoCreateUserTransfers ''user-1'' [processed_example])"
  let ?tr = "calls_example 0 @ [?persist]"
  note run = createUserTransfers_example_object
  note ord = createUserTransfers_pipeline_order [OF run]
  have nil_run: "createUserTransfers env_example None (http_example (JSONObject request_example))
     = (NilResponder, [])"
    using createUserTransfers_pipeline_order
      [of env_example None "http_example (JSONObject request_example)"
          "fst (createUserTransfers env_example None (http_example (JSONObject request_example)))"
          "snd (createUserTransfers env_example None (http_example (JSONObject request_example)))"]
    by (simp add: prod_eq_iff)
  have srt: "sorted (map (\<lambda>e. (fst e, stage (snd e))) ?tr)"
    using ord by blast
  have obj: "\<forall>pre i c post. ?tr = pre @ (i, c) # post \<and> stage c = 1 \<longrightarrow> objects_found env_example i pre"
    using ord by blast
  have lim: "\<forall>pre i c post. ?tr = pre @ (i, c) # post \<and> 2 \<le> stage c \<and> stage c \<le> 8
          \<longrightarrow> limit_passed env_example i pre"
    using ord by blast
  have fin: "(\<exists>t. OKObject (asTransfer processed_example ''stored'' 0) = OKObject t)
       \<or> (\<exists>ts. OKObject (asTransfer processed_example ''stored'' 0) = OKArray ts) \<longrightarrow>
          ?tr \<noteq> [] \<and> stage (snd (last ?tr)) = 9
          \<and> (\<forall>j<fst (last ?tr). \<exists>e\<in>set ?tr. fst e = j \<and> stage (snd e) = 6)"
    using ord by blast
  have s1: "?tr = lookups_example 0 @ (0, CallAllowTransfer ''user-1'') # (effects_example 0 @ [?persist])"
    by (simp add: calls_example_def)
  have s2: "?tr = (lookups_example 0 @ [(0, CallAllowTransfer ''user-1'')])
      @ (0, hd (map snd (effects_example 0))) # (tl (effects_example 0) @ [?persist])"
    by (simp add: calls_example_def effects_example_def)
  have "objects_found env_example 0 (lookups_example 0)"
    using obj [rule_format, of "lookups_example 0" 0 "CallAllowTransfer ''user-1''"
        "effects_example 0 @ [?persist]"] s1 by simp
  moreover have "limit_passed env_example 0 (lookups_example 0 @ [(0, CallAllowTransfer ''user-1'')])"
    using lim [rule_format, of "lookups_example 0 @ [(0, CallAllowTransfer ''user-1'')]" 0
        "hd (map snd (effects_example 0))" "tl (effects_example 0) @ [?persist]"] s2
    by (simp add: effects_example_def)
  moreover have "stage (snd (last ?tr)) = 9"
    using fin by blast
  ultimately show ?thesis using run nil_run srt by blast
qed

text \<open>
  Claim C3, where the code departs from it: an array of length one must be answered with
  an array of length one. On the example the body is such an array, every stage passes,
  and the response is a single object. The comment in \<^verbatim>\<open>writeResponse\<close> keeps the single
  object for a request of \<^verbatim>\<open>POST /transfers\<close>, not of \<^verbatim>\<open>POST /transfers/batch\<close>, but the
  function is given the number of requests only.
\<close>

theorem createUserTransfers_array_of_one_renders_object:
  "http_body (http_example (JSONArray [Some request_example])) = JSONArray [Some request_example]
   \<and> fst (createUserTransfers env_example (Some responder_example)
            (http_example (JSONArray [Some request_example])))
       = OKObject (asTransfer processed_example ''stored'' 0)"
  by (simp add: createUserTransfers_example_array http_example_simps)

theorem createUserTransfers_response_shape_witness:
  "fst (createUserTransfers env_example (Some responder_example)
          (http_example (JSONArray [Some request_example])))
     = OKObject (asTransfer processed_example ''stored'' 0)
   \<and> (\<exists>req. http_body (http_example (JSONArray [Some request_example])) = JSONObject req
          \<or> http_body (http_example (JSONArray [Some request_example])) = JSONArray [Some req])
   \<and> fst (createUserTransfers env_example (Some responder_example)
          (http_example (JSONArray [Some request_example, Some request_example])))
     = OKArray [asTransfer processed_example ''stored'' 0, asTransfer processed_example ''stored'' 0]
   \<and> (\<exists>requests. http_body (http_example (JSONArray [Some request_example, Some request_example]))
          = JSONArray requests \<and> 2 \<le> length requests)"
proof -
  note one = createUserTransfers_response_shape [OF createUserTransfers_example_array]
  note two = createUserTransfers_response_shape [OF createUserTransfers_example_two]
  have "\<exists>req. http_body (http_example (JSONArray [Some request_example])) = JSONObject req
          \<or> http_body (http_example (JSONArray [Some request_example])) = JSONArray [Some req]"
    using one by blast
  moreover have "\<exists>requests. http_body (http_example (JSONArray [Some request_example, Some request_example]))
          = JSONArray requests \<and> 2 \<le> length requests"
    using two by blast
  ultimately show ?thesis
    by (simp add: createUserTransfers_example_array createUserTransfers_example_two)
qed

text \<open>
  Claim C5 as stated has the transfers of the earlier requests persisted. On the example
  the second request of two fails at the limit check: the file of the first is uploaded,
  and the trace has no call that persists a transfer.
\<close>

theorem createUserTransfers_failure_persists_nothing:
  "fst (createUserTransfers env_limit_example (Some responder_example)
          (http_example (JSONArray [Some request_example, Some request_example])))
     = Problem (Err ''over the limit'')
   \<and> (0, CallCreateFile ''key-1'' ''ach-file'')
       \<in> set (snd (createUserTransfers env_limit_example (Some responder_example)
                    (http_example (JSONArray [Some request_example, Some request_example]))))
   \<and> filter (\<lambda>e. stage (snd e) = 9)
       (snd (createUserTransfers env_limit_example (Some responder_example)
               (http_example (JSONArray [Some request_example, Some request_example])))) = []"
  by (simp add: createUserTransfers_limit_example calls_example_def lookups_example_def
      effects_example_def)

lemma processRequests_limit_example_first:
  "processRequests env_limit_example responder_example ''key-1'' ''10.0.0.1'' 0
       (take 1 [Some request_example, Some request_example]) []
     = (Inr [processed_example], calls_example 0)"
  by (simp add: processRequest_limit_example_first)

theorem createUserTransfers_stops_at_first_failure_witness:
  "createUserTransfers env_limit_example (Some responder_example)
       (http_example (JSONArray [Some request_example, Some request_example]))
     = (Problem (Err ''over the limit''),
        calls_example 0 @ lookups_example (Suc 0) @ [(Suc 0, CallAllowTransfer ''user-1'')])
   \<and> prefix (calls_example 0)
        (calls_example 0 @ lookups_example (Suc 0) @ [(Suc 0, CallAllowTransfer ''user-1'')])
   \<and> (\<exists>e\<in>set (calls_example 0 @ lookups_example (Suc 0) @ [(Suc 0, CallAllowTransfer ''user-1'')]).
         fst e = 0 \<and> stage (snd e) = 6)"
proof -
  let ?r = "http_example (JSONArray [Some request_example, Some request_example])"
  let ?tr = "calls_example 0 @ lookups_example (Suc 0) @ [(Suc 0, CallAllowTransfer ''user-1'')]"
  have body: "http_body ?r = JSONArray [Some request_example, Some request_example]"
    by (simp add: http_example_simps)
  have i: "(1::nat) < length [Some request_example, Some request_example]" by simp
  have earlier: "processRequests env_limit_example responder_example
        (if idempotency_header ?r = [] then base_ID_key env_limit_example else idempotency_header ?r)
        (remote_addr ?r) 0 (take 1 [Some request_example, Some request_example]) []
      = (Inr [processed_example], calls_example 0)"
    using processRequests_limit_example_first by (simp add: http_example_simps)
  have fails: "processRequest env_limit_example responder_example
        (if idempotency_header ?r = [] then base_ID_key env_limit_example else idempotency_header ?r)
        (remote_addr ?r) 1 ([Some request_example, Some request_example] ! 1) (calls_example 0)
      = (Inl (Problem (Err ''over the limit'')), ?tr)"
    using processRequest_limit_example_second by (simp add: http_example_simps)
  note stop = createUserTransfers_stops_at_first_failure [OF body i earlier fails]
  have "\<forall>j<(1::nat). \<exists>e\<in>set ?tr. fst e = j \<and> stage (snd e) = 6"
    using stop by blast
  then have "\<exists>e\<in>set ?tr. fst e = 0 \<and> stage (snd e) = 6"
    by simp
  then show ?thesis using stop by blast
qed





theorem SeenBefore_first_false_then_true_witness:
  "fst (SeenBefore_calls [''a'', ''b'', ''a''] []) ! 0 = False
   \<and> fst (SeenBefore_calls [''a'', ''b'', ''a''] []) ! 2 = True
   \<and> fst (NewResponder [''key-1''] ''user-1'' ''request-1'' (http_example (JSONObject request_example)))
       = (None, Some 412)
   \<and> createUserTransfers env_example
        (fst (fst (NewResponder [''key-1''] ''user-1'' ''request-1''
                    (http_example (JSONObject request_example)))))
        (http_example (JSONObject request_example)) = (NilResponder, [])"
proof -
  note inst = SeenBefore_first_false_then_true
    [of "''key-1''" "[''key-1'']" "[''a'', ''b'', ''a'']" "http_example (JSONObject request_example)"
        "''user-1''" "''request-1''" env_example]
  have calls: "\<forall>n<length [''a'', ''b'', ''a''].
      fst (SeenBefore_calls [''a'', ''b'', ''a''] []) ! n
        = (\<exists>m<n. [''a'', ''b'', ''a''] ! m = [''a'', ''b'', ''a''] ! n)"
    using inst by blast
  have "\<exists>m<2. [''a'', ''b'', ''a''] ! m = [''a'', ''b'', ''a''] ! (2::nat)"
    by (rule exI [of _ 0]) simp
  then have 2: "fst (SeenBefore_calls [''a'', ''b'', ''a''] []) ! 2 = True"
    using calls [rule_format, of 2] by simp
  have 0: "fst (SeenBefore_calls [''a'', ''b'', ''a''] []) ! 0 = False"
    using calls [rule_format, of 0] by simp
  have seen: "idempotency_header (http_example (JSONObject request_example)) \<noteq> []
      \<and> idempotency_header (http_example (JSONObject request_example)) \<in> set [''key-1'']"
    by (simp add: http_example_simps)
  from inst seen 0 2 show ?thesis by blast
qed

end
